theory Spec2Isabelle
  imports Complex_Main
begin

section \<open>Drop detection: the data model\<close>

text \<open>
  The embedding follows \<^verbatim>\<open>src/utils/dropDetection.ts\<close> and the interfaces of
  \<^verbatim>\<open>src/types/index.ts\<close>. A TypeScript \<^verbatim>\<open>number\<close> is modelled as a real; quantities
  that the program floors or reads from the clock (milliseconds) are integers. Rounding
  of IEEE doubles, \<^verbatim>\<open>NaN\<close> and infinities are outside the model. Only the fields that
  the detector reads are kept.
\<close>

record SpotifyTrack =
  track_id :: string
  duration_ms :: int

record Section =
  sec_start :: real
  sec_loudness :: real
  sec_tempo_confidence :: real

record Segment =
  seg_start :: real
  seg_loudness_max :: real
  seg_timbre :: "real list"

record Bar =
  bar_start :: real
  bar_confidence :: real

text \<open>
  The provider's response is dynamically shaped JSON: an array that is missing reads as
  \<^verbatim>\<open>undefined\<close>, and the first use of it raises a \<^verbatim>\<open>TypeError\<close>. Each array is
  therefore optional. (A response that is \<^verbatim>\<open>null\<close> altogether behaves as one whose
  \<^verbatim>\<open>segments\<close> are missing.)
\<close>

record AudioAnalysis =
  sections :: "Section list option"
  segments :: "Segment list option"
  bars :: "Bar list option"

record DropAnalysis =
  trackId :: string
  dropStart :: int
  confidence :: real
  method_tag :: string
  previewLength :: int
  analysisTimestamp :: int

record DropCandidate =
  cand_start :: real
  cand_score :: real

datatype error = ProviderError | TypeError

text \<open>
  The tags of the field \<^verbatim>\<open>method\<close>, \<^verbatim>\<open>loudest-segment\<close> and \<^verbatim>\<open>30-percent\<close> are written in the source with
  the non-breaking hyphen U+2011; here it is the three bytes of its UTF-8 encoding.
\<close>

definition nb_hyphen :: string where
  "nb_hyphen = [CHR 0xE2, CHR 0x80, CHR 0x91]"

definition method_loudest_segment :: string where
  "method_loudest_segment = ''loudest'' @ nb_hyphen @ ''segment''"

definition method_30_percent :: string where
  "method_30_percent = ''30'' @ nb_hyphen @ ''percent''"

section \<open>Utility helpers\<close>

text \<open>
  \<^verbatim>\<open>snapToDownbeat\<close>: the loop over the bars keeps \<^verbatim>\<open>closest\<close> and \<^verbatim>\<open>minDist\<close>;
  \<^verbatim>\<open>minDist\<close> starts at \<^verbatim>\<open>Infinity\<close>, which is \<open>None\<close> here (every distance is below it).
\<close>

fun snapToDownbeat_loop :: "real \<Rightarrow> Bar list \<Rightarrow> real \<Rightarrow> real option \<Rightarrow> real" where
  "snapToDownbeat_loop targetSec [] closest minDist = closest"
| "snapToDownbeat_loop targetSec (bar # rest) closest minDist =
     (if bar_confidence bar < 0.5 then snapToDownbeat_loop targetSec rest closest minDist
      else
        (let dist = \<bar>bar_start bar - targetSec\<bar> in
         if (case minDist of None \<Rightarrow> True | Some m \<Rightarrow> dist < m)
         then snapToDownbeat_loop targetSec rest (bar_start bar) (Some dist)
         else snapToDownbeat_loop targetSec rest closest minDist))"

definition snapToDownbeat :: "real \<Rightarrow> Bar list \<Rightarrow> real" where
  "snapToDownbeat targetSec bs = snapToDownbeat_loop targetSec bs targetSec None"

definition median :: "real list \<Rightarrow> real" where
  "median nums =
     (if nums = [] then 0
      else
        (let srt = sort nums; mid = length srt div 2 in
         if length srt mod 2 \<noteq> 0 then srt ! mid
         else (srt ! (mid - 1) + srt ! mid) / 2))"

definition squash :: "real \<Rightarrow> real" where
  "squash x = 1 / (1 + exp (- 0.6 * (x - 5)))"

section \<open>Detection primitives\<close>

text \<open>
  The two scanners are index loops from \<open>i = 1\<close>; \<^verbatim>\<open>continue\<close> is the recursive call
  with \<open>best\<close> unchanged. \<^verbatim>\<open>!best || score > best.score\<close> is the case on \<open>best\<close>.
  In the section scanner \<open>span_sec\<close> is zero only for a track of duration zero; an item that
  passes the window test then starts at \<open>s\<close>, the program computes \<^verbatim>\<open>0 / 0\<close>, which is
  \<^verbatim>\<open>NaN\<close> and fails both comparisons, and the model computes \<open>0 / 0 = 0\<close>, which fails the
  first: neither adds the positional bonus.
\<close>

function findDropInSections_loop ::
  "Section list \<Rightarrow> real \<Rightarrow> real \<Rightarrow> real \<Rightarrow> real \<Rightarrow> nat \<Rightarrow> DropCandidate option
    \<Rightarrow> DropCandidate option" where
  "findDropInSections_loop secs s e span_sec thresh i best =
     (if i < length secs then
        (let cur = secs ! i in
         if sec_start cur < s \<or> sec_start cur > e
         then findDropInSections_loop secs s e span_sec thresh (i + 1) best
         else
           (let prev = secs ! (i - 1) in
            if sec_loudness cur < thresh
            then findDropInSections_loop secs s e span_sec thresh (i + 1) best
            else
              (let score0 = (sec_loudness cur + 60) / 10;
                   score1 = score0 + sec_tempo_confidence cur * 4;
                   score2 = (if sec_loudness cur > sec_loudness prev + 2 then score1 + 4 else score1);
                   posRatio = (sec_start cur - s) / span_sec;
                   score = (if posRatio > 0.2 \<and> posRatio < 0.8 then score2 + 2 else score2)
               in findDropInSections_loop secs s e span_sec thresh (i + 1)
                    (case best of
                       None \<Rightarrow> Some \<lparr>cand_start = sec_start cur, cand_score = score\<rparr>
                     | Some b \<Rightarrow>
                         if score > cand_score b
                         then Some \<lparr>cand_start = sec_start cur, cand_score = score\<rparr>
                         else best))))
      else best)"
  by pat_completeness auto
termination
  by (relation "measure (\<lambda>(secs, s, e, span_sec, thresh, i, best). length secs - i)") auto

declare findDropInSections_loop.simps [simp del]

definition findDropInSections ::
  "Section list \<Rightarrow> real \<Rightarrow> real \<Rightarrow> real \<Rightarrow> DropCandidate option" where
  "findDropInSections secs startMs endMs thresh =
     (let s = startMs / 1000; e = endMs / 1000; span_sec = e - s
      in findDropInSections_loop secs s e span_sec thresh 1 None)"

function findDropInSegments_loop ::
  "Segment list \<Rightarrow> real \<Rightarrow> real \<Rightarrow> real \<Rightarrow> nat \<Rightarrow> DropCandidate option
    \<Rightarrow> DropCandidate option" where
  "findDropInSegments_loop segs s e thresh i best =
     (if i < length segs then
        (let cur = segs ! i in
         if seg_start cur < s \<or> seg_start cur > e
         then findDropInSegments_loop segs s e thresh (i + 1) best
         else if seg_loudness_max cur < thresh
         then findDropInSegments_loop segs s e thresh (i + 1) best
         else
           (let prev = segs ! (i - 1);
                loudJump = seg_loudness_max cur - seg_loudness_max prev;
                score = max 0 loudJump * 3 + (seg_loudness_max cur + 60) / 15
            in findDropInSegments_loop segs s e thresh (i + 1)
                 (case best of
                    None \<Rightarrow> Some \<lparr>cand_start = seg_start cur, cand_score = score\<rparr>
                  | Some b \<Rightarrow>
                      if score > cand_score b
                      then Some \<lparr>cand_start = seg_start cur, cand_score = score\<rparr>
                      else best)))
      else best)"
  by pat_completeness auto
termination
  by (relation "measure (\<lambda>(segs, s, e, thresh, i, best). length segs - i)") auto

declare findDropInSegments_loop.simps [simp del]

definition findDropInSegments ::
  "Segment list \<Rightarrow> real \<Rightarrow> real \<Rightarrow> real \<Rightarrow> DropCandidate option" where
  "findDropInSegments segs startMs endMs thresh =
     (let s = startMs / 1000; e = endMs / 1000
      in findDropInSegments_loop segs s e thresh 1 None)"

text \<open>
  \<^verbatim>\<open>loudestSegmentInRange\<close>: \<^verbatim>\<open>filter\<close>, then \<^verbatim>\<open>reduce\<close> without an initial value,
  which starts from the first element and folds the rest from the left.
\<close>

definition loudestSegmentInRange ::
  "Segment list \<Rightarrow> real \<Rightarrow> real \<Rightarrow> DropCandidate option" where
  "loudestSegmentInRange segs startMs endMs =
     (let s = startMs / 1000; e = endMs / 1000;
          inRange = filter (\<lambda>seg. seg_start seg \<ge> s \<and> seg_start seg \<le> e) segs
      in case inRange of
           [] \<Rightarrow> None
         | x # xs \<Rightarrow>
             (let loudest = foldl (\<lambda>a b. if seg_loudness_max b > seg_loudness_max a then b else a) x xs
              in Some \<lparr>cand_start = seg_start loudest, cand_score = 0.6\<rparr>))"

section \<open>Result builders and the core analysis\<close>

text \<open>
  \<^verbatim>\<open>Date.now()\<close> is the parameter \<open>now\<close>. \<^verbatim>\<open>buildResult\<close> iterates over
  \<^verbatim>\<open>analysis.bars\<close>, which raises when the array is missing.
\<close>

definition buildResult ::
  "SpotifyTrack \<Rightarrow> AudioAnalysis \<Rightarrow> DropCandidate \<Rightarrow> string \<Rightarrow> int \<Rightarrow> real option \<Rightarrow> int
    \<Rightarrow> error + DropAnalysis" where
  "buildResult track analysis candidate meth previewLen confidenceOverride now =
     (case bars analysis of
        None \<Rightarrow> Inl TypeError
      | Some bs \<Rightarrow>
          (let snapped = snapToDownbeat (cand_start candidate) bs;
               conf = (case confidenceOverride of
                         Some c \<Rightarrow> c
                       | None \<Rightarrow> squash (cand_score candidate))
           in Inr \<lparr>trackId = track_id track,
                   dropStart = \<lfloor>snapped * 1000\<rfloor>,
                   confidence = conf,
                   method_tag = meth,
                   previewLength = previewLen,
                   analysisTimestamp = now\<rparr>))"

definition fallbackDrop :: "SpotifyTrack \<Rightarrow> int \<Rightarrow> real \<Rightarrow> string \<Rightarrow> int \<Rightarrow> DropAnalysis" where
  "fallbackDrop track previewLen conf meth now =
     \<lparr>trackId = track_id track,
      dropStart = \<lfloor>real_of_int (duration_ms track) * 0.3\<rfloor>,
      confidence = conf,
      method_tag = meth,
      previewLength = previewLen,
      analysisTimestamp = now\<rparr>"

definition analyzeForDrop ::
  "SpotifyTrack \<Rightarrow> AudioAnalysis \<Rightarrow> real \<Rightarrow> int \<Rightarrow> int \<Rightarrow> error + DropAnalysis" where
  "analyzeForDrop track analysis loudnessOffset previewLen now =
     (let durMs = real_of_int (duration_ms track);
          searchStartMs = durMs * 0.15;
          searchEndMs = durMs * (if durMs < 240000 then 0.7 else 0.8)
      in case segments analysis of
           None \<Rightarrow> Inl TypeError
         | Some segs \<Rightarrow>
             (let medianLoud = median (map seg_loudness_max segs);
                  dynThreshold = medianLoud + loudnessOffset
              in case sections analysis of
                   None \<Rightarrow> Inl TypeError
                 | Some secs \<Rightarrow>
                     (case findDropInSections secs searchStartMs searchEndMs dynThreshold of
                        Some sectionHit \<Rightarrow>
                          buildResult track analysis sectionHit ''sections'' previewLen None now
                      | None \<Rightarrow>
                          (case findDropInSegments segs searchStartMs searchEndMs dynThreshold of
                             Some segmentHit \<Rightarrow>
                               buildResult track analysis segmentHit ''segments'' previewLen None now
                           | None \<Rightarrow>
                               (case loudestSegmentInRange segs searchStartMs searchEndMs of
                                  Some hit \<Rightarrow>
                                    buildResult track analysis hit method_loudest_segment
                                      previewLen (Some 0.6) now
                                | None \<Rightarrow>
                                    Inr (fallbackDrop track previewLen 0.2 method_30_percent now))))))"

section \<open>Caching and the entry point\<close>

text \<open>
  The cache key is the template string \<^verbatim>\<open>trackId|loudnessOffset|previewLength\<close>. The two
  numbers contain no \<^verbatim>\<open>|\<close>, so the string determines the triple and the triple is the
  key of the model. The object store (key path \<^verbatim>\<open>cacheKey\<close>) is a map from keys to
  results. What the environment decides is a record of its own: the provider's answer for
  a track id, whether opening the database succeeds when reading and when writing, and
  the two clock readings (at the freshness test and at the construction of a result).
\<close>

type_synonym CacheKey = "string \<times> real \<times> int"

record World =
  store :: "CacheKey \<Rightarrow> DropAnalysis option"
  api_calls :: "string list"

record Env =
  spotifyApiCall :: "string \<Rightarrow> error + AudioAnalysis"
  read_ok :: bool
  write_ok :: bool
  now_check :: int
  now_stamp :: int

definition getCacheKey :: "string \<Rightarrow> real \<Rightarrow> int \<Rightarrow> CacheKey" where
  "getCacheKey tid loudnessOffset previewLen = (tid, loudnessOffset, previewLen)"

definition getCachedAnalysis :: "Env \<Rightarrow> World \<Rightarrow> string \<Rightarrow> real \<Rightarrow> int \<Rightarrow> DropAnalysis option" where
  "getCachedAnalysis env w tid loudnessOffset previewLen =
     (if read_ok env then store w (getCacheKey tid loudnessOffset previewLen) else None)"

definition cacheAnalysis :: "Env \<Rightarrow> World \<Rightarrow> DropAnalysis \<Rightarrow> CacheKey \<Rightarrow> World" where
  "cacheAnalysis env w a cacheKey =
     (if write_ok env then w\<lparr>store := (store w)(cacheKey \<mapsto> a)\<rparr> else w)"

definition seven_days :: int where
  "seven_days = 7 * 24 * 60 * 60 * 1000"

text \<open>
  The body of the \<^verbatim>\<open>try\<close> block: an error leaves it as \<open>Inl\<close>, with the world so far.
  The inner case is the test \<^verbatim>\<open>cached && Date.now() - cached.analysisTimestamp < ...\<close>: it
  yields the entry that is returned, if any. The field \<open>api_calls\<close> of the world records the
  track ids for which the provider has been called, most recent first; the program does not
  read it.
\<close>

definition detectDrop_try ::
  "Env \<Rightarrow> World \<Rightarrow> SpotifyTrack \<Rightarrow> real \<Rightarrow> int \<Rightarrow> (error + DropAnalysis) \<times> World" where
  "detectDrop_try env w track loudnessOffset previewLen =
     (let cacheKey = getCacheKey (track_id track) loudnessOffset previewLen;
          cached = getCachedAnalysis env w (track_id track) loudnessOffset previewLen
      in case (case cached of
                 None \<Rightarrow> None
               | Some c \<Rightarrow>
                   if now_check env - analysisTimestamp c < seven_days then Some c else None) of
           Some c \<Rightarrow> (Inr c, w)
         | None \<Rightarrow>
             (let w1 = w\<lparr>api_calls := track_id track # api_calls w\<rparr> in
              case spotifyApiCall env (track_id track) of
                Inl err \<Rightarrow> (Inl err, w1)
              | Inr analysis \<Rightarrow>
                  (case analyzeForDrop track analysis loudnessOffset previewLen (now_stamp env) of
                     Inl err \<Rightarrow> (Inl err, w1)
                   | Inr dropAnalysis \<Rightarrow>
                       (Inr dropAnalysis, cacheAnalysis env w1 dropAnalysis cacheKey))))"

text \<open>\<^verbatim>\<open>detectDrop\<close>: the \<^verbatim>\<open>catch\<close> clause turns every error of the body into the fallback.\<close>

definition detectDrop ::
  "Env \<Rightarrow> World \<Rightarrow> SpotifyTrack \<Rightarrow> real \<Rightarrow> int \<Rightarrow> (error + DropAnalysis) \<times> World" where
  "detectDrop env w track loudnessOffset previewLen =
     (case detectDrop_try env w track loudnessOffset previewLen of
        (Inr r, w') \<Rightarrow> (Inr r, w')
      | (Inl err, w') \<Rightarrow> (Inr (fallbackDrop track previewLen 0.3 ''error'' (now_stamp env)), w'))"

section \<open>Notions used to state the properties\<close>

text \<open>
  The search window of \<^verbatim>\<open>analyzeForDrop\<close> and its dynamic threshold, as functions of the
  track and the segments.
\<close>

definition searchStartMs :: "SpotifyTrack \<Rightarrow> real" where
  "searchStartMs track = real_of_int (duration_ms track) * 0.15"

definition searchEndMs :: "SpotifyTrack \<Rightarrow> real" where
  "searchEndMs track =
     real_of_int (duration_ms track) * (if real_of_int (duration_ms track) < 240000 then 0.7 else 0.8)"

definition dynThreshold :: "Segment list \<Rightarrow> real \<Rightarrow> real" where
  "dynThreshold segs loudnessOffset = median (map seg_loudness_max segs) + loudnessOffset"

text \<open>
  A section (a segment) at index \<open>i\<close> qualifies when it passes both filters of its scanner:
  its start lies in the window and its loudness reaches the threshold.
\<close>

definition section_qualifies :: "Section list \<Rightarrow> real \<Rightarrow> real \<Rightarrow> real \<Rightarrow> nat \<Rightarrow> bool" where
  "section_qualifies secs startMs endMs thresh i \<longleftrightarrow>
     startMs / 1000 \<le> sec_start (secs ! i) \<and> sec_start (secs ! i) \<le> endMs / 1000 \<and>
     thresh \<le> sec_loudness (secs ! i)"

definition segment_in_window :: "Segment \<Rightarrow> real \<Rightarrow> real \<Rightarrow> bool" where
  "segment_in_window g startMs endMs \<longleftrightarrow>
     startMs / 1000 \<le> seg_start g \<and> seg_start g \<le> endMs / 1000"

definition segment_qualifies :: "Segment list \<Rightarrow> real \<Rightarrow> real \<Rightarrow> real \<Rightarrow> nat \<Rightarrow> bool" where
  "segment_qualifies segs startMs endMs thresh i \<longleftrightarrow>
     segment_in_window (segs ! i) startMs endMs \<and> thresh \<le> seg_loudness_max (segs ! i)"

text \<open>
  The scores that the two loops compute for index \<open>i\<close>, written as sums of their terms.
  The predecessor is the element at index \<open>i - 1\<close> of the list, whether it qualifies or not.
\<close>

definition section_score :: "Section list \<Rightarrow> real \<Rightarrow> real \<Rightarrow> nat \<Rightarrow> real" where
  "section_score secs startMs endMs i =
     (let cur = secs ! i; prev = secs ! (i - 1);
          posRatio = (sec_start cur - startMs / 1000) / (endMs / 1000 - startMs / 1000)
      in (sec_loudness cur + 60) / 10
         + sec_tempo_confidence cur * 4
         + (if sec_loudness cur > sec_loudness prev + 2 then 4 else 0)
         + (if 0.2 < posRatio \<and> posRatio < 0.8 then 2 else 0))"

definition segment_score :: "Segment list \<Rightarrow> nat \<Rightarrow> real" where
  "segment_score segs i =
     (let cur = segs ! i; prev = segs ! (i - 1)
      in 3 * max 0 (seg_loudness_max cur - seg_loudness_max prev)
         + (seg_loudness_max cur + 60) / 15)"

text \<open>
  \<open>first_best q sc n k\<close>: among the indices \<open>1, \<dots>, n - 1\<close> that qualify, \<open>k\<close> has the
  highest score, and it is the earliest index with that score.
\<close>

definition first_best :: "(nat \<Rightarrow> bool) \<Rightarrow> (nat \<Rightarrow> real) \<Rightarrow> nat \<Rightarrow> nat \<Rightarrow> bool" where
  "first_best q sc n k \<longleftrightarrow>
     k \<in> {1..<n} \<and> q k \<and> (\<forall>j\<in>{1..<n}. q j \<longrightarrow> sc j \<le> sc k \<and> (j < k \<longrightarrow> sc j < sc k))"

text \<open>The update of \<open>best\<close> shared by the two loops, and the invariant of the loops.\<close>

definition keep_best :: "DropCandidate option \<Rightarrow> DropCandidate \<Rightarrow> DropCandidate option" where
  "keep_best best c =
     (case best of None \<Rightarrow> Some c | Some b \<Rightarrow> if cand_score c > cand_score b then Some c else best)"

definition best_upto ::
  "(nat \<Rightarrow> bool) \<Rightarrow> (nat \<Rightarrow> real) \<Rightarrow> (nat \<Rightarrow> real) \<Rightarrow> nat \<Rightarrow> DropCandidate option \<Rightarrow> bool" where
  "best_upto q sc st i best \<longleftrightarrow>
     (case best of
        None \<Rightarrow> \<forall>j\<in>{1..<i}. \<not> q j
      | Some c \<Rightarrow> \<exists>b. first_best q sc i b \<and> c = \<lparr>cand_start = st b, cand_score = sc b\<rparr>)"

text \<open>
  The scores as the specification words them, for comparison with the loops. The
  section score of the specification has one more term, a bonus for a tempo confidence above
  0.7. The segment score of the specification measures the jump over the preceding
  qualifying segment \<open>prev\<close> and has three more terms: one for each of the first two timbre
  coefficients, and a flat bonus for a jump above 3 dB. The terms shared with the loops
  carry the loops' constants; the additional terms carry the constants of the earlier
  revision of the scanners that the repository still holds (2, 0.15, 3).
\<close>

definition claimed_section_score :: "Section list \<Rightarrow> real \<Rightarrow> real \<Rightarrow> nat \<Rightarrow> real" where
  "claimed_section_score secs startMs endMs i =
     section_score secs startMs endMs i + (if sec_tempo_confidence (secs ! i) > 0.7 then 2 else 0)"

definition claimed_segment_score :: "Segment \<Rightarrow> Segment \<Rightarrow> real" where
  "claimed_segment_score prev cur =
     (let loudnessJump = seg_loudness_max cur - seg_loudness_max prev
      in 3 * max 0 loudnessJump
         + (seg_loudness_max cur + 60) / 15
         + (if length (seg_timbre cur) > 0 then \<bar>seg_timbre cur ! 0\<bar> * 0.15 else 0)
         + (if length (seg_timbre cur) > 1 then \<bar>seg_timbre cur ! 1\<bar> * 0.15 else 0)
         + (if loudnessJump > 3 then 3 else 0))"

text \<open>
  Example inputs. The window of a track of 100 s is 15 s to 70 s. In \<open>ex_sections\<close> the
  sections at 30 s and 40 s tie in the loop's score. In \<open>ex_segments\<close> every segment
  qualifies at threshold -30 dB; in \<open>ex_segments_gap\<close> the segment at index 1 does not.
\<close>

definition ex_sections :: "Section list" where
  "ex_sections =
     [\<lparr>sec_start = 0, sec_loudness = -10, sec_tempo_confidence = 0.5\<rparr>,
      \<lparr>sec_start = 30, sec_loudness = -10, sec_tempo_confidence = 0.7\<rparr>,
      \<lparr>sec_start = 40, sec_loudness = -14, sec_tempo_confidence = 0.8\<rparr>]"

definition ex_segments :: "Segment list" where
  "ex_segments =
     [\<lparr>seg_start = 20, seg_loudness_max = -20, seg_timbre = []\<rparr>,
      \<lparr>seg_start = 30, seg_loudness_max = -17, seg_timbre = []\<rparr>,
      \<lparr>seg_start = 35, seg_loudness_max = -30, seg_timbre = []\<rparr>,
      \<lparr>seg_start = 40, seg_loudness_max = -26.9, seg_timbre = []\<rparr>]"

definition ex_segments_gap :: "Segment list" where
  "ex_segments_gap =
     [\<lparr>seg_start = 20, seg_loudness_max = -20, seg_timbre = []\<rparr>,
      \<lparr>seg_start = 25, seg_loudness_max = -40, seg_timbre = []\<rparr>,
      \<lparr>seg_start = 30, seg_loudness_max = -18, seg_timbre = []\<rparr>]"

text \<open>
  A call is served from the cache when the lookup returns an entry that passes the
  freshness test of \<^verbatim>\<open>detectDrop\<close>.
\<close>

definition served_from_cache :: "Env \<Rightarrow> World \<Rightarrow> SpotifyTrack \<Rightarrow> real \<Rightarrow> int \<Rightarrow> bool" where
  "served_from_cache env w track loudnessOffset previewLen \<longleftrightarrow>
     (case getCachedAnalysis env w (track_id track) loudnessOffset previewLen of
        None \<Rightarrow> False
      | Some c \<Rightarrow> now_check env - analysisTimestamp c < seven_days)"

text \<open>
  Every bar of confidence at least 0.5 starts within the track (bar starts are seconds,
  the duration is milliseconds).
\<close>

definition bars_within_track :: "AudioAnalysis \<Rightarrow> SpotifyTrack \<Rightarrow> bool" where
  "bars_within_track analysis track \<longleftrightarrow>
     (case bars analysis of
        None \<Rightarrow> True
      | Some bs \<Rightarrow>
          \<forall>b\<in>set bs. 0.5 \<le> bar_confidence b \<longrightarrow>
            0 \<le> bar_start b \<and> bar_start b * 1000 \<le> real_of_int (duration_ms track))"

text \<open>
  An example track of 100 s with an analysis in which both scanners find a candidate at
  30 s (the median of the segments is -25 dB, so the threshold at offset 3 is -22 dB); the
  bars are a parameter. An environment whose provider gives a fixed answer, with working
  storage; an empty cache, and a cache that holds one entry computed at time 0.
\<close>

definition ex_track :: SpotifyTrack where
  "ex_track = \<lparr>track_id = ''t1'', duration_ms = 100000\<rparr>"

definition ex_sections_hit :: "Section list" where
  "ex_sections_hit =
     [\<lparr>sec_start = 0, sec_loudness = -20, sec_tempo_confidence = 0.5\<rparr>,
      \<lparr>sec_start = 30, sec_loudness = -10, sec_tempo_confidence = 0.7\<rparr>]"

definition ex_segments_jump :: "Segment list" where
  "ex_segments_jump =
     [\<lparr>seg_start = 20, seg_loudness_max = -40, seg_timbre = []\<rparr>,
      \<lparr>seg_start = 30, seg_loudness_max = -10, seg_timbre = []\<rparr>]"

definition ex_analysis :: "Bar list \<Rightarrow> AudioAnalysis" where
  "ex_analysis bs =
     \<lparr>sections = Some ex_sections_hit, segments = Some ex_segments_jump, bars = Some bs\<rparr>"

definition ex_env :: "error + AudioAnalysis \<Rightarrow> Env" where
  "ex_env response =
     \<lparr>spotifyApiCall = (\<lambda>tid. response), read_ok = True, write_ok = True,
      now_check = 1000, now_stamp = 1001\<rparr>"

definition ex_world :: World where
  "ex_world = \<lparr>store = Map.empty, api_calls = []\<rparr>"

definition ex_cached :: DropAnalysis where
  "ex_cached =
     \<lparr>trackId = ''t1'', dropStart = 42000, confidence = 0.9, method_tag = ''sections'',
      previewLength = 20000, analysisTimestamp = 0\<rparr>"

definition ex_world_cached :: World where
  "ex_world_cached =
     \<lparr>store = [getCacheKey ''t1'' 3 20000 \<mapsto> ex_cached], api_calls = []\<rparr>"

text \<open>
  Further example answers of the provider: one with no item at all, one whose
  \<^verbatim>\<open>sections\<close> and \<^verbatim>\<open>bars\<close> are missing.
\<close>

definition ex_analysis_empty :: AudioAnalysis where
  "ex_analysis_empty = \<lparr>sections = Some [], segments = Some [], bars = Some []\<rparr>"

definition ex_analysis_malformed :: AudioAnalysis where
  "ex_analysis_malformed = \<lparr>sections = None, segments = Some [], bars = None\<rparr>"

text \<open>Example bars: the beat-snap example of the specification.\<close>

definition ex_bars :: "Bar list" where
  "ex_bars = [\<lparr>bar_start = 60, bar_confidence = 0.9\<rparr>, \<lparr>bar_start = 64, bar_confidence = 0.4\<rparr>]"

section \<open>The beat snapper\<close>

lemma snapToDownbeat_loop_spec:
  "(snapToDownbeat_loop t bs c m = c \<and>
      (\<forall>b\<in>set bs. 0.5 \<le> bar_confidence b \<longrightarrow>
         (case m of None \<Rightarrow> False | Some d \<Rightarrow> d \<le> \<bar>bar_start b - t\<bar>)))
   \<or> (\<exists>b\<in>set bs. 0.5 \<le> bar_confidence b \<and> snapToDownbeat_loop t bs c m = bar_start b \<and>
         (case m of None \<Rightarrow> True | Some d \<Rightarrow> \<bar>bar_start b - t\<bar> < d) \<and>
         (\<forall>b'\<in>set bs. 0.5 \<le> bar_confidence b' \<longrightarrow> \<bar>bar_start b - t\<bar> \<le> \<bar>bar_start b' - t\<bar>))"
proof (induction bs arbitrary: c m)
  case Nil
  then show ?case by simp
next
  case (Cons a bs)
  show ?case
  proof (cases "bar_confidence a < 0.5")
    case True
    with Cons[of c m] show ?thesis by auto
  next
    case False
    show ?thesis
    proof (cases "case m of None \<Rightarrow> True | Some d \<Rightarrow> \<bar>bar_start a - t\<bar> < d")
      case True
      with False Cons[of "bar_start a" "Some \<bar>bar_start a - t\<bar>"] show ?thesis
        by (auto simp: Let_def split: option.splits)
    next
      case nearer: False
      with False Cons[of c m] show ?thesis
        by (auto simp: Let_def split: option.splits)
    qed
  qed
qed

text \<open>
  Claim C9. For every raw timestamp and every list of bars, \<^verbatim>\<open>snapToDownbeat\<close> returns the
  start of a bar with confidence at least 0.5 whose distance to the raw timestamp is minimal
  among those bars; when no bar has confidence at least 0.5 it returns the raw timestamp.
\<close>

theorem snapToDownbeat_nearest_confident_bar:
  "(if \<exists>b\<in>set bs. 0.5 \<le> bar_confidence b
    then \<exists>b\<in>set bs. 0.5 \<le> bar_confidence b \<and> snapToDownbeat t bs = bar_start b \<and>
           (\<forall>b'\<in>set bs. 0.5 \<le> bar_confidence b' \<longrightarrow> \<bar>bar_start b - t\<bar> \<le> \<bar>bar_start b' - t\<bar>)
    else snapToDownbeat t bs = t)"
  using snapToDownbeat_loop_spec[of t bs t None]
  by (auto simp: snapToDownbeat_def)

text \<open>
  The example of the specification: raw 61.3 s, bars at 60.0 s (confidence 0.9) and 64.0 s
  (confidence 0.4); and a list with no confident bar.
\<close>

theorem snapToDownbeat_nearest_confident_bar_witness:
  "snapToDownbeat 61.3 ex_bars = 60 \<and>
   snapToDownbeat 61.3 [\<lparr>bar_start = 64, bar_confidence = 0.4\<rparr>] = 61.3"
  using snapToDownbeat_nearest_confident_bar[of ex_bars "61.3"]
    snapToDownbeat_nearest_confident_bar[of "[\<lparr>bar_start = 64, bar_confidence = 0.4\<rparr>]" "61.3"]
  by (simp add: ex_bars_def)

section \<open>The scanners return the first best qualifying item\<close>

lemma best_upto_start: "best_upto q sc st 1 None"
  by (simp add: best_upto_def)

lemma best_upto_skip:
  assumes "best_upto q sc st i best" "\<not> q i"
  shows "best_upto q sc st (Suc i) best"
proof (cases best)
  case None
  with assms show ?thesis
    by (auto simp: best_upto_def less_Suc_eq)
next
  case (Some c)
  with assms obtain b where b: "first_best q sc i b" "c = \<lparr>cand_start = st b, cand_score = sc b\<rparr>"
    by (auto simp: best_upto_def)
  from b(1) assms(2) have "first_best q sc (Suc i) b"
    by (auto simp: first_best_def less_Suc_eq)
  with b(2) Some show ?thesis by (auto simp: best_upto_def)
qed

lemma best_upto_take:
  assumes "best_upto q sc st i best" "q i" "1 \<le> i"
  shows "best_upto q sc st (Suc i) (keep_best best \<lparr>cand_start = st i, cand_score = sc i\<rparr>)"
proof (cases best)
  case None
  with assms have "first_best q sc (Suc i) i"
    by (auto simp: best_upto_def first_best_def less_Suc_eq)
  with None show ?thesis by (auto simp: best_upto_def keep_best_def)
next
  case (Some c)
  with assms obtain b where b: "first_best q sc i b" "c = \<lparr>cand_start = st b, cand_score = sc b\<rparr>"
    by (auto simp: best_upto_def)
  show ?thesis
  proof (cases "sc i > sc b")
    case True
    with b(1) assms have "first_best q sc (Suc i) i"
      by (fastforce simp: first_best_def less_Suc_eq)
    with True b(2) Some show ?thesis by (auto simp: best_upto_def keep_best_def)
  next
    case False
    with b(1) assms have "first_best q sc (Suc i) b"
      by (fastforce simp: first_best_def less_Suc_eq)
    with False b(2) Some show ?thesis by (auto simp: best_upto_def keep_best_def)
  qed
qed

lemma sections_loop_step:
  assumes "i < length secs"
  shows "findDropInSections_loop secs (startMs / 1000) (endMs / 1000)
           (endMs / 1000 - startMs / 1000) thresh i best =
         findDropInSections_loop secs (startMs / 1000) (endMs / 1000)
           (endMs / 1000 - startMs / 1000) thresh (Suc i)
           (if section_qualifies secs startMs endMs thresh i
            then keep_best best \<lparr>cand_start = sec_start (secs ! i),
                                 cand_score = section_score secs startMs endMs i\<rparr>
            else best)"
  using assms
  by (subst findDropInSections_loop.simps)
     (auto simp: Let_def section_qualifies_def section_score_def keep_best_def split: option.splits)

lemma sections_loop_inv:
  assumes "1 \<le> i" "i \<le> length secs"
    and "best_upto (section_qualifies secs startMs endMs thresh) (section_score secs startMs endMs)
           (\<lambda>k. sec_start (secs ! k)) i best"
  shows "best_upto (section_qualifies secs startMs endMs thresh) (section_score secs startMs endMs)
           (\<lambda>k. sec_start (secs ! k)) (length secs)
           (findDropInSections_loop secs (startMs / 1000) (endMs / 1000)
              (endMs / 1000 - startMs / 1000) thresh i best)"
  using assms
proof (induction "length secs - i" arbitrary: i best)
  case 0
  then have "i = length secs" by simp
  with 0 show ?case by (subst findDropInSections_loop.simps) simp
next
  case (Suc n)
  then have lt: "i < length secs" by simp
  let ?q = "section_qualifies secs startMs endMs thresh"
  let ?next = "if ?q i
            then keep_best best \<lparr>cand_start = sec_start (secs ! i),
                                 cand_score = section_score secs startMs endMs i\<rparr>
            else best"
  have "best_upto ?q (section_score secs startMs endMs) (\<lambda>k. sec_start (secs ! k)) (Suc i) ?next"
    using Suc.prems best_upto_skip[of ?q _ _ i best]
      best_upto_take[of ?q _ "\<lambda>k. sec_start (secs ! k)" i best]
    by auto
  moreover have "n = length secs - Suc i" using Suc.hyps(2) by simp
  ultimately show ?case
    using Suc.hyps(1)[of "Suc i" ?next] lt sections_loop_step[OF lt, of startMs endMs thresh best]
    by simp
qed

lemma findDropInSections_spec:
  "(case findDropInSections secs startMs endMs thresh of
      None \<Rightarrow> \<forall>k\<in>{1..<length secs}. \<not> section_qualifies secs startMs endMs thresh k
    | Some c \<Rightarrow>
        \<exists>b. first_best (section_qualifies secs startMs endMs thresh)
               (section_score secs startMs endMs) (length secs) b \<and>
            c = \<lparr>cand_start = sec_start (secs ! b), cand_score = section_score secs startMs endMs b\<rparr>)"
proof (cases "1 \<le> length secs")
  case True
  from sections_loop_inv[OF _ True best_upto_start, of startMs endMs thresh]
  show ?thesis by (simp add: findDropInSections_def Let_def best_upto_def)
next
  case False
  then show ?thesis by (simp add: findDropInSections_def Let_def findDropInSections_loop.simps)
qed

lemma segments_loop_step:
  assumes "i < length segs"
  shows "findDropInSegments_loop segs (startMs / 1000) (endMs / 1000) thresh i best =
         findDropInSegments_loop segs (startMs / 1000) (endMs / 1000) thresh (Suc i)
           (if segment_qualifies segs startMs endMs thresh i
            then keep_best best \<lparr>cand_start = seg_start (segs ! i), cand_score = segment_score segs i\<rparr>
            else best)"
  using assms
  by (subst findDropInSegments_loop.simps, cases best)
     (simp_all add: Let_def segment_qualifies_def segment_in_window_def segment_score_def
        keep_best_def not_less mult.commute)

lemma segments_loop_inv:
  assumes "1 \<le> i" "i \<le> length segs"
    and "best_upto (segment_qualifies segs startMs endMs thresh) (segment_score segs)
           (\<lambda>k. seg_start (segs ! k)) i best"
  shows "best_upto (segment_qualifies segs startMs endMs thresh) (segment_score segs)
           (\<lambda>k. seg_start (segs ! k)) (length segs)
           (findDropInSegments_loop segs (startMs / 1000) (endMs / 1000) thresh i best)"
  using assms
proof (induction "length segs - i" arbitrary: i best)
  case 0
  then have "i = length segs" by simp
  with 0 show ?case by (subst findDropInSegments_loop.simps) simp
next
  case (Suc n)
  then have lt: "i < length segs" by simp
  let ?q = "segment_qualifies segs startMs endMs thresh"
  let ?next = "if ?q i
            then keep_best best \<lparr>cand_start = seg_start (segs ! i), cand_score = segment_score segs i\<rparr>
            else best"
  have "best_upto ?q (segment_score segs) (\<lambda>k. seg_start (segs ! k)) (Suc i) ?next"
    using Suc.prems best_upto_skip[of ?q _ _ i best]
      best_upto_take[of ?q _ "\<lambda>k. seg_start (segs ! k)" i best]
    by auto
  moreover have "n = length segs - Suc i" using Suc.hyps(2) by simp
  ultimately show ?case
    using Suc.hyps(1)[of "Suc i" ?next] lt segments_loop_step[OF lt, of startMs endMs thresh best]
    by simp
qed

lemma findDropInSegments_spec:
  "(case findDropInSegments segs startMs endMs thresh of
      None \<Rightarrow> \<forall>k\<in>{1..<length segs}. \<not> segment_qualifies segs startMs endMs thresh k
    | Some c \<Rightarrow>
        \<exists>b. first_best (segment_qualifies segs startMs endMs thresh) (segment_score segs) (length segs) b \<and>
            c = \<lparr>cand_start = seg_start (segs ! b), cand_score = segment_score segs b\<rparr>)"
proof (cases "1 \<le> length segs")
  case True
  from segments_loop_inv[OF _ True best_upto_start, of startMs endMs thresh]
  show ?thesis by (simp add: findDropInSegments_def Let_def best_upto_def)
next
  case False
  then show ?thesis
    unfolding findDropInSegments_def Let_def
    by (subst findDropInSegments_loop.simps) simp
qed

section \<open>Evaluations of the scanners\<close>

lemma ex_sections_eval:
  "findDropInSections ex_sections 15000 70000 (-20) = Some \<lparr>cand_start = 30, cand_score = 49 / 5\<rparr>"
  by (simp add: findDropInSections_def ex_sections_def findDropInSections_loop.simps Let_def)

lemma ex_single_section_eval:
  "findDropInSections [\<lparr>sec_start = 30, sec_loudness = -10, sec_tempo_confidence = 0.7\<rparr>] 15000 70000 (-20) = None"
  by (simp add: findDropInSections_def findDropInSections_loop.simps Let_def)

lemma ex_segments_eval:
  "findDropInSegments ex_segments 15000 70000 (-30) = Some \<lparr>cand_start = 30, cand_score = 178 / 15\<rparr>"
  by (simp add: findDropInSegments_def ex_segments_def findDropInSegments_loop.simps Let_def)

lemma ex_segments_gap_eval:
  "findDropInSegments ex_segments_gap 15000 70000 (-30) = Some \<lparr>cand_start = 30, cand_score = 344 / 5\<rparr>"
  by (simp add: findDropInSegments_def ex_segments_gap_def findDropInSegments_loop.simps Let_def)

section \<open>The section scanner\<close>

text \<open>
  Claim C7, as amended. \<^verbatim>\<open>findDropInSections\<close> returns nothing exactly when no section
  other than the first of the list qualifies (start in the window, loudness at least the
  threshold). Otherwise it returns the start and the score of a qualifying section, not the
  first of the list, whose score is the highest among them and strictly higher than that of
  every earlier one, where the score is \<open>(loudness + 60) / 10\<close>, plus 4 times the tempo
  confidence, plus 4 when the loudness exceeds that of the section just before it in the list
  by more than 2 dB, plus 2 when the position ratio lies strictly between 0.2 and 0.8. There
  is no bonus for a tempo confidence above 0.7.
\<close>

theorem findDropInSections_first_best:
  "(findDropInSections secs startMs endMs thresh = None \<longleftrightarrow>
      (\<forall>k\<in>{1..<length secs}. \<not> section_qualifies secs startMs endMs thresh k)) \<and>
   (\<forall>c. findDropInSections secs startMs endMs thresh = Some c \<longrightarrow>
      (\<exists>b\<in>{1..<length secs}.
          section_qualifies secs startMs endMs thresh b \<and>
          cand_start c = sec_start (secs ! b) \<and>
          cand_score c = section_score secs startMs endMs b \<and>
          (\<forall>j\<in>{1..<length secs}. section_qualifies secs startMs endMs thresh j \<longrightarrow>
              section_score secs startMs endMs j \<le> section_score secs startMs endMs b \<and>
              (j < b \<longrightarrow> section_score secs startMs endMs j < section_score secs startMs endMs b))))"
proof (cases "findDropInSections secs startMs endMs thresh")
  case None
  with findDropInSections_spec[of secs startMs endMs thresh] show ?thesis by simp
next
  case (Some c)
  with findDropInSections_spec[of secs startMs endMs thresh]
  obtain b where b: "first_best (section_qualifies secs startMs endMs thresh)
               (section_score secs startMs endMs) (length secs) b"
     "c = \<lparr>cand_start = sec_start (secs ! b), cand_score = section_score secs startMs endMs b\<rparr>"
    by auto
  from b(1) have "\<exists>k\<in>{1..<length secs}. section_qualifies secs startMs endMs thresh k"
    unfolding first_best_def by blast
  moreover from b have "\<exists>b\<in>{1..<length secs}.
          section_qualifies secs startMs endMs thresh b \<and>
          cand_start c = sec_start (secs ! b) \<and>
          cand_score c = section_score secs startMs endMs b \<and>
          (\<forall>j\<in>{1..<length secs}. section_qualifies secs startMs endMs thresh j \<longrightarrow>
              section_score secs startMs endMs j \<le> section_score secs startMs endMs b \<and>
              (j < b \<longrightarrow> section_score secs startMs endMs j < section_score secs startMs endMs b))"
    unfolding first_best_def by (intro bexI[of _ b]) simp_all
  ultimately show ?thesis using Some by simp
qed

text \<open>
  On \<open>ex_sections\<close> the sections at 30 s and 40 s both score 9.8, and the earlier one is
  returned.
\<close>

theorem findDropInSections_first_best_witness:
  "findDropInSections ex_sections 15000 70000 (-20) = Some \<lparr>cand_start = 30, cand_score = 49 / 5\<rparr> \<and>
   (\<exists>b\<in>{1..<length ex_sections}.
       section_qualifies ex_sections 15000 70000 (-20) b \<and>
       sec_start (ex_sections ! b) = 30 \<and> section_score ex_sections 15000 70000 b = 49 / 5)"
proof -
  have ev: "findDropInSections ex_sections 15000 70000 (-20) =
      Some \<lparr>cand_start = 30, cand_score = 49 / 5\<rparr>"
    by (rule ex_sections_eval)
  from findDropInSections_first_best[of ex_sections 15000 70000 "-20"] ev
  obtain b where "b \<in> {1..<length ex_sections}" "section_qualifies ex_sections 15000 70000 (-20) b"
    "sec_start (ex_sections ! b) = 30" "section_score ex_sections 15000 70000 b = 49 / 5"
    by force
  with ev show ?thesis by blast
qed

text \<open>
  The claim as stated fails. With the bonus for a tempo confidence above 0.7 the section at
  40 s of \<open>ex_sections\<close> (tempo confidence 0.8) would score higher than the one at 30 s, which
  the scanner returns. And a list whose only section qualifies yields no candidate, since
  the loop starts at the second section.
\<close>

theorem findDropInSections_claim_counterexample:
  "findDropInSections ex_sections 15000 70000 (-20) = Some \<lparr>cand_start = 30, cand_score = 49 / 5\<rparr> \<and>
   section_qualifies ex_sections 15000 70000 (-20) 2 \<and>
   sec_start (ex_sections ! 2) = 40 \<and>
   claimed_section_score ex_sections 15000 70000 1 < claimed_section_score ex_sections 15000 70000 2 \<and>
   section_qualifies [ex_sections ! 1] 15000 70000 (-20) 0 \<and>
   findDropInSections [ex_sections ! 1] 15000 70000 (-20) = None"
proof -
  have "section_qualifies ex_sections 15000 70000 (-20) 2"
    by (simp add: section_qualifies_def ex_sections_def)
  moreover have "sec_start (ex_sections ! 2) = 40" by (simp add: ex_sections_def)
  moreover have "claimed_section_score ex_sections 15000 70000 1
      < claimed_section_score ex_sections 15000 70000 2"
    by (simp add: claimed_section_score_def section_score_def ex_sections_def Let_def)
  moreover have "section_qualifies [ex_sections ! 1] 15000 70000 (-20) 0"
    by (simp add: section_qualifies_def ex_sections_def)
  moreover have "findDropInSections [ex_sections ! 1] 15000 70000 (-20) = None"
    by (simp add: ex_sections_def ex_single_section_eval)
  ultimately show ?thesis using ex_sections_eval by simp
qed

section \<open>The segment scanner\<close>

text \<open>
  Claim C8, as amended. \<^verbatim>\<open>findDropInSegments\<close> returns nothing exactly when no segment
  other than the first of the list qualifies (start in the window, \<^verbatim>\<open>loudness_max\<close> at least
  the threshold). Otherwise it returns the start and the score of a qualifying segment, not
  the first of the list, whose score is the highest among them and strictly higher than that
  of every earlier one, where the score is 3 times the positive part of the jump of
  \<^verbatim>\<open>loudness_max\<close> over the segment just before it in the list (qualifying or not), plus
  \<open>(loudness_max + 60) / 15\<close>. The timbre coefficients do not enter the score, and there is
  no flat bonus for a jump above 3 dB.
\<close>

theorem findDropInSegments_first_best:
  "(findDropInSegments segs startMs endMs thresh = None \<longleftrightarrow>
      (\<forall>k\<in>{1..<length segs}. \<not> segment_qualifies segs startMs endMs thresh k)) \<and>
   (\<forall>c. findDropInSegments segs startMs endMs thresh = Some c \<longrightarrow>
      (\<exists>b\<in>{1..<length segs}.
          segment_qualifies segs startMs endMs thresh b \<and>
          cand_start c = seg_start (segs ! b) \<and>
          cand_score c = segment_score segs b \<and>
          (\<forall>j\<in>{1..<length segs}. segment_qualifies segs startMs endMs thresh j \<longrightarrow>
              segment_score segs j \<le> segment_score segs b \<and>
              (j < b \<longrightarrow> segment_score segs j < segment_score segs b))))"
proof (cases "findDropInSegments segs startMs endMs thresh")
  case None
  with findDropInSegments_spec[of segs startMs endMs thresh] show ?thesis by simp
next
  case (Some c)
  with findDropInSegments_spec[of segs startMs endMs thresh]
  obtain b where b: "first_best (segment_qualifies segs startMs endMs thresh)
               (segment_score segs) (length segs) b"
     "c = \<lparr>cand_start = seg_start (segs ! b), cand_score = segment_score segs b\<rparr>"
    by auto
  from b(1) have "\<exists>k\<in>{1..<length segs}. segment_qualifies segs startMs endMs thresh k"
    unfolding first_best_def by blast
  moreover from b have "\<exists>b\<in>{1..<length segs}.
          segment_qualifies segs startMs endMs thresh b \<and>
          cand_start c = seg_start (segs ! b) \<and>
          cand_score c = segment_score segs b \<and>
          (\<forall>j\<in>{1..<length segs}. segment_qualifies segs startMs endMs thresh j \<longrightarrow>
              segment_score segs j \<le> segment_score segs b \<and>
              (j < b \<longrightarrow> segment_score segs j < segment_score segs b))"
    unfolding first_best_def by (intro bexI[of _ b]) simp_all
  ultimately show ?thesis using Some by simp
qed

text \<open>On \<open>ex_segments\<close> the segment at 30 s has the highest score of the loop.\<close>

theorem findDropInSegments_first_best_witness:
  "findDropInSegments ex_segments 15000 70000 (-30) = Some \<lparr>cand_start = 30, cand_score = 178 / 15\<rparr> \<and>
   (\<exists>b\<in>{1..<length ex_segments}.
       segment_qualifies ex_segments 15000 70000 (-30) b \<and>
       seg_start (ex_segments ! b) = 30 \<and> segment_score ex_segments b = 178 / 15)"
proof -
  have ev: "findDropInSegments ex_segments 15000 70000 (-30) =
      Some \<lparr>cand_start = 30, cand_score = 178 / 15\<rparr>"
    by (rule ex_segments_eval)
  from findDropInSegments_first_best[of ex_segments 15000 70000 "-30"] ev
  obtain b where "b \<in> {1..<length ex_segments}" "segment_qualifies ex_segments 15000 70000 (-30) b"
    "seg_start (ex_segments ! b) = 30" "segment_score ex_segments b = 178 / 15"
    by force
  with ev show ?thesis by blast
qed

text \<open>
  The claim as stated fails. In \<open>ex_segments\<close> every predecessor qualifies; with the flat
  bonus for a jump above 3 dB the segment at 40 s (jump 3.1 dB) would score higher than the
  one at 30 s (jump 3 dB), which the scanner returns. In \<open>ex_segments_gap\<close> the segment at
  30 s is scored by its jump of 22 dB over the segment before it, which does not qualify;
  over the preceding qualifying segment the jump is 2 dB and the score would be 8.8.
\<close>

theorem findDropInSegments_claim_counterexample:
  "findDropInSegments ex_segments 15000 70000 (-30) = Some \<lparr>cand_start = 30, cand_score = 178 / 15\<rparr> \<and>
   segment_qualifies ex_segments 15000 70000 (-30) 0 \<and>
   segment_qualifies ex_segments 15000 70000 (-30) 2 \<and>
   segment_qualifies ex_segments 15000 70000 (-30) 3 \<and>
   seg_start (ex_segments ! 3) = 40 \<and>
   claimed_segment_score (ex_segments ! 0) (ex_segments ! 1)
     < claimed_segment_score (ex_segments ! 2) (ex_segments ! 3) \<and>
   findDropInSegments ex_segments_gap 15000 70000 (-30) = Some \<lparr>cand_start = 30, cand_score = 344 / 5\<rparr> \<and>
   segment_qualifies ex_segments_gap 15000 70000 (-30) 0 \<and>
   \<not> segment_qualifies ex_segments_gap 15000 70000 (-30) 1 \<and>
   claimed_segment_score (ex_segments_gap ! 0) (ex_segments_gap ! 2) = 44 / 5"
proof -
  have "segment_qualifies ex_segments 15000 70000 (-30) 0"
    "segment_qualifies ex_segments 15000 70000 (-30) 2"
    "segment_qualifies ex_segments 15000 70000 (-30) 3"
    "seg_start (ex_segments ! 3) = 40"
    by (simp_all add: segment_qualifies_def segment_in_window_def ex_segments_def)
  moreover have "claimed_segment_score (ex_segments ! 0) (ex_segments ! 1)
     < claimed_segment_score (ex_segments ! 2) (ex_segments ! 3)"
    by (simp add: claimed_segment_score_def ex_segments_def Let_def)
  moreover have "segment_qualifies ex_segments_gap 15000 70000 (-30) 0"
    "\<not> segment_qualifies ex_segments_gap 15000 70000 (-30) 1"
    by (simp_all add: segment_qualifies_def segment_in_window_def ex_segments_gap_def)
  moreover have "claimed_segment_score (ex_segments_gap ! 0) (ex_segments_gap ! 2) = 44 / 5"
    by (simp add: claimed_segment_score_def ex_segments_gap_def Let_def)
  ultimately show ?thesis using ex_segments_eval ex_segments_gap_eval by simp
qed

section \<open>The confidence normalizer and the loudest segment\<close>

lemma squash_bounds: "0 < squash x \<and> squash x < 1"
proof -
  have "0 < exp (- 0.6 * (x - 5))" by simp
  then show ?thesis unfolding squash_def by (simp add: add_pos_pos)
qed

lemma foldl_loudest:
  "foldl (\<lambda>a b. if seg_loudness_max b > seg_loudness_max a then b else a) x xs \<in> set (x # xs) \<and>
   (\<forall>g\<in>set (x # xs). seg_loudness_max g \<le>
       seg_loudness_max (foldl (\<lambda>a b. if seg_loudness_max b > seg_loudness_max a then b else a) x xs))"
proof (induction xs arbitrary: x)
  case Nil
  then show ?case by simp
next
  case (Cons y ys)
  show ?case
  proof (cases "seg_loudness_max y > seg_loudness_max x")
    case True
    with Cons[of y] show ?thesis by fastforce
  next
    case False
    with Cons[of x] show ?thesis by fastforce
  qed
qed

lemma loudestSegmentInRange_spec:
  "(case loudestSegmentInRange segs startMs endMs of
      None \<Rightarrow> \<forall>g\<in>set segs. \<not> segment_in_window g startMs endMs
    | Some c \<Rightarrow>
        \<exists>g\<in>set segs. segment_in_window g startMs endMs \<and>
           c = \<lparr>cand_start = seg_start g, cand_score = 0.6\<rparr> \<and>
           (\<forall>g'\<in>set segs. segment_in_window g' startMs endMs \<longrightarrow>
               seg_loudness_max g' \<le> seg_loudness_max g))"
proof (cases "filter (\<lambda>seg. seg_start seg \<ge> startMs / 1000 \<and> seg_start seg \<le> endMs / 1000) segs")
  case Nil
  then have "\<forall>g\<in>set segs. \<not> segment_in_window g startMs endMs"
    by (simp add: filter_empty_conv segment_in_window_def)
  with Nil show ?thesis by (simp add: loudestSegmentInRange_def Let_def)
next
  case (Cons x xs)
  let ?f = "\<lambda>a b. if seg_loudness_max b > seg_loudness_max a then b else a"
  let ?l = "foldl ?f x xs"
  have set_eq: "set (x # xs) = {g \<in> set segs. segment_in_window g startMs endMs}"
    using Cons[symmetric] by (auto simp: segment_in_window_def)
  from foldl_loudest[of x xs] have "?l \<in> set (x # xs)"
    and mx: "\<forall>g\<in>set (x # xs). seg_loudness_max g \<le> seg_loudness_max ?l"
    by blast+
  with set_eq have "?l \<in> set segs" "segment_in_window ?l startMs endMs"
    "\<forall>g'\<in>set segs. segment_in_window g' startMs endMs \<longrightarrow> seg_loudness_max g' \<le> seg_loudness_max ?l"
    by blast+
  with Cons show ?thesis by (auto simp: loudestSegmentInRange_def Let_def)
qed

section \<open>The core analysis: its case analysis and its bounds\<close>

lemma analyzeForDrop_unfold:
  assumes "sections analysis = Some secs" "segments analysis = Some segs"
  shows "analyzeForDrop track analysis off len now =
     (case findDropInSections secs (searchStartMs track) (searchEndMs track) (dynThreshold segs off) of
        Some c \<Rightarrow> buildResult track analysis c ''sections'' len None now
      | None \<Rightarrow>
          (case findDropInSegments segs (searchStartMs track) (searchEndMs track) (dynThreshold segs off) of
             Some c \<Rightarrow> buildResult track analysis c ''segments'' len None now
           | None \<Rightarrow>
               (case loudestSegmentInRange segs (searchStartMs track) (searchEndMs track) of
                  Some c \<Rightarrow> buildResult track analysis c method_loudest_segment len (Some 0.6) now
                | None \<Rightarrow> Inr (fallbackDrop track len 0.2 method_30_percent now))))"
  unfolding analyzeForDrop_def Let_def searchStartMs_def searchEndMs_def dynThreshold_def
  by (simp only: assms option.case)

lemma window_within_track:
  assumes "0 \<le> duration_ms track"
  shows "0 \<le> searchStartMs track \<and> searchStartMs track \<le> real_of_int (duration_ms track) \<and>
         0 \<le> searchEndMs track \<and> searchEndMs track \<le> real_of_int (duration_ms track)"
  using assms by (simp add: searchStartMs_def searchEndMs_def)

lemma findDropInSections_in_window:
  assumes "findDropInSections secs startMs endMs thresh = Some c"
  shows "startMs / 1000 \<le> cand_start c \<and> cand_start c \<le> endMs / 1000"
  using findDropInSections_spec[of secs startMs endMs thresh] assms
  by (auto simp: first_best_def section_qualifies_def)

lemma findDropInSegments_in_window:
  assumes "findDropInSegments segs startMs endMs thresh = Some c"
  shows "startMs / 1000 \<le> cand_start c \<and> cand_start c \<le> endMs / 1000"
  using findDropInSegments_spec[of segs startMs endMs thresh] assms
  by (auto simp: first_best_def segment_qualifies_def segment_in_window_def)

lemma loudestSegmentInRange_in_window:
  assumes "loudestSegmentInRange segs startMs endMs = Some c"
  shows "startMs / 1000 \<le> cand_start c \<and> cand_start c \<le> endMs / 1000"
  using loudestSegmentInRange_spec[of segs startMs endMs] assms
  by (auto simp: segment_in_window_def)

lemma snapToDownbeat_cases:
  "snapToDownbeat t bs = t \<or> (\<exists>b\<in>set bs. 0.5 \<le> bar_confidence b \<and> snapToDownbeat t bs = bar_start b)"
  using snapToDownbeat_loop_spec[of t bs t None]
  by (auto simp: snapToDownbeat_def)

lemma floor_ms_within:
  assumes "0 \<le> x" "x * 1000 \<le> real_of_int d"
  shows "0 \<le> \<lfloor>x * 1000\<rfloor> \<and> \<lfloor>x * 1000\<rfloor> \<le> d"
proof -
  from assms(1) have "0 \<le> x * 1000" by simp
  then have "0 \<le> \<lfloor>x * 1000\<rfloor>" by simp
  moreover from assms(2) have "\<lfloor>x * 1000\<rfloor> \<le> d" by (simp add: floor_le_iff) 
  ultimately show ?thesis by simp
qed

lemma fallbackDrop_within:
  assumes "0 \<le> duration_ms track"
  shows "0 \<le> dropStart (fallbackDrop track len conf meth now) \<and>
         dropStart (fallbackDrop track len conf meth now) \<le> duration_ms track"
proof -
  let ?d = "real_of_int (duration_ms track)"
  from assms have "0 \<le> ?d * 0.3" "?d * 0.3 \<le> ?d" by simp_all
  then have "0 \<le> \<lfloor>?d * 0.3\<rfloor>" "\<lfloor>?d * 0.3\<rfloor> \<le> duration_ms track"
    by (simp_all add: floor_le_iff)
  then show ?thesis by (simp add: fallbackDrop_def)
qed

lemma buildResult_within:
  assumes "0 \<le> duration_ms track"
    and "buildResult track analysis c meth len ov now = Inr r"
    and "startMs / 1000 \<le> cand_start c" "cand_start c \<le> endMs / 1000"
    and "0 \<le> startMs" "endMs \<le> real_of_int (duration_ms track)"
    and "bars_within_track analysis track"
  shows "0 \<le> dropStart r \<and> dropStart r \<le> duration_ms track"
proof -
  from assms(2) obtain bs where bs: "bars analysis = Some bs"
    and r: "dropStart r = \<lfloor>snapToDownbeat (cand_start c) bs * 1000\<rfloor>"
    by (auto simp: buildResult_def Let_def split: option.splits)
  let ?x = "snapToDownbeat (cand_start c) bs"
  have "0 \<le> ?x \<and> ?x * 1000 \<le> real_of_int (duration_ms track)"
  proof (cases "?x = cand_start c")
    case True
    from assms(3,5) have "0 \<le> cand_start c" by simp
    moreover from assms(4,6) have "cand_start c * 1000 \<le> real_of_int (duration_ms track)" by simp
    ultimately show ?thesis using True by simp
  next
    case False
    with snapToDownbeat_cases[of "cand_start c" bs]
    obtain b where "b \<in> set bs" "0.5 \<le> bar_confidence b" "?x = bar_start b" by blast
    with assms(7) bs show ?thesis by (auto simp: bars_within_track_def)
  qed
  with r floor_ms_within[of ?x "duration_ms track"] show ?thesis by simp
qed

lemma buildResult_confidence:
  assumes "buildResult track analysis c meth len ov now = Inr r"
  shows "confidence r = (case ov of Some v \<Rightarrow> v | None \<Rightarrow> squash (cand_score c))"
  using assms by (auto simp: buildResult_def Let_def split: option.splits)

lemma analyzeForDrop_bounds:
  assumes "0 \<le> duration_ms track"
    and "analyzeForDrop track analysis off len now = Inr r"
  shows "0 \<le> confidence r \<and> confidence r \<le> 1 \<and>
         (bars_within_track analysis track \<longrightarrow> 0 \<le> dropStart r \<and> dropStart r \<le> duration_ms track)"
proof -
  from assms(2) obtain secs segs where arrays: "sections analysis = Some secs" "segments analysis = Some segs"
    by (auto simp: analyzeForDrop_def Let_def split: option.splits)
  note unf = analyzeForDrop_unfold[OF arrays, of track off len now]
  note win = window_within_track[OF assms(1)]
  let ?s = "searchStartMs track" and ?e = "searchEndMs track" and ?th = "dynThreshold segs off"
  show ?thesis
  proof (cases "findDropInSections secs ?s ?e ?th")
    case (Some c)
    with unf assms(2) have br: "buildResult track analysis c ''sections'' len None now = Inr r" by simp
    from buildResult_confidence[OF br] squash_bounds[of "cand_score c"]
    have "0 \<le> confidence r \<and> confidence r \<le> 1" by simp
    with buildResult_within[OF assms(1) br _ _ _ _] findDropInSections_in_window[OF Some] win
    show ?thesis by blast
  next
    case nsec: None
    show ?thesis
    proof (cases "findDropInSegments segs ?s ?e ?th")
      case (Some c)
      with unf nsec assms(2) have br: "buildResult track analysis c ''segments'' len None now = Inr r" by simp
      from buildResult_confidence[OF br] squash_bounds[of "cand_score c"]
      have "0 \<le> confidence r \<and> confidence r \<le> 1" by simp
      with buildResult_within[OF assms(1) br _ _ _ _] findDropInSegments_in_window[OF Some] win
      show ?thesis by blast
    next
      case nseg: None
      show ?thesis
      proof (cases "loudestSegmentInRange segs ?s ?e")
        case (Some c)
        with unf nsec nseg assms(2)
        have br: "buildResult track analysis c method_loudest_segment len (Some 0.6) now = Inr r" by simp
        from buildResult_confidence[OF br]
        have "0 \<le> confidence r \<and> confidence r \<le> 1" by simp
        with buildResult_within[OF assms(1) br _ _ _ _] loudestSegmentInRange_in_window[OF Some] win
        show ?thesis by blast
      next
        case None
        with unf nsec nseg assms(2) have "r = fallbackDrop track len 0.2 method_30_percent now" by simp
        with fallbackDrop_within[OF assms(1), of len "0.2" method_30_percent now]
        show ?thesis by (simp add: fallbackDrop_def)
      qed
    qed
  qed
qed

section \<open>The entry point\<close>

lemma detectDrop_miss:
  assumes "\<not> served_from_cache env w track off len"
  shows "detectDrop env w track off len =
     (case spotifyApiCall env (track_id track) of
        Inl err \<Rightarrow>
          (Inr (fallbackDrop track len 0.3 ''error'' (now_stamp env)),
           w\<lparr>api_calls := track_id track # api_calls w\<rparr>)
      | Inr a \<Rightarrow>
          (case analyzeForDrop track a off len (now_stamp env) of
             Inl err \<Rightarrow>
               (Inr (fallbackDrop track len 0.3 ''error'' (now_stamp env)),
                w\<lparr>api_calls := track_id track # api_calls w\<rparr>)
           | Inr d \<Rightarrow>
               (Inr d, cacheAnalysis env (w\<lparr>api_calls := track_id track # api_calls w\<rparr>) d
                         (getCacheKey (track_id track) off len))))"
  using assms
  by (auto simp: detectDrop_def detectDrop_try_def served_from_cache_def Let_def
           split: option.splits sum.splits)

lemma detectDrop_hit:
  assumes "getCachedAnalysis env w (track_id track) off len = Some c"
    and "now_check env - analysisTimestamp c < seven_days"
  shows "detectDrop env w track off len = (Inr c, w)"
  using assms by (simp add: detectDrop_def detectDrop_try_def Let_def)

lemma analyzeForDrop_method:
  assumes "analyzeForDrop track analysis off len now = Inr r"
  shows "method_tag r \<noteq> ''error''"
proof -
  have tags: "method_loudest_segment \<noteq> ''error''" "method_30_percent \<noteq> ''error''"
    by (simp_all add: method_loudest_segment_def method_30_percent_def)
  from assms tags show ?thesis
    by (auto simp: analyzeForDrop_def Let_def buildResult_def fallbackDrop_def
             split: option.splits)
qed

lemma method_tags_distinct:
  "method_30_percent \<noteq> ''error''" "method_loudest_segment \<noteq> ''error''"
  "method_30_percent \<noteq> method_loudest_segment"
  "method_30_percent \<noteq> ''sections''" "method_30_percent \<noteq> ''segments''"
  "method_loudest_segment \<noteq> ''sections''" "method_loudest_segment \<noteq> ''segments''"
  by (simp_all add: method_30_percent_def method_loudest_segment_def)

text \<open>The core analysis and the entry point on the example inputs.\<close>

lemma ex_track_fields: "track_id ex_track = ''t1''" "duration_ms ex_track = 100000"
  by (simp_all add: ex_track_def)

lemma ex_window: "searchStartMs ex_track = 15000" "searchEndMs ex_track = 70000"
  by (simp_all add: searchStartMs_def searchEndMs_def ex_track_def)

lemma ex_threshold: "dynThreshold ex_segments_jump 3 = -22"
  by (simp add: dynThreshold_def median_def ex_segments_jump_def Let_def)

lemma ex_hit_sections_eval:
  "findDropInSections ex_sections_hit 15000 70000 (-22) = Some \<lparr>cand_start = 30, cand_score = 69 / 5\<rparr>"
  by (simp add: findDropInSections_def ex_sections_hit_def findDropInSections_loop.simps Let_def)

lemma ex_hit_segments_eval:
  "findDropInSegments ex_segments_jump 15000 70000 (-22) = Some \<lparr>cand_start = 30, cand_score = 280 / 3\<rparr>"
  by (simp add: findDropInSegments_def ex_segments_jump_def findDropInSegments_loop.simps Let_def)

lemma ex_analyze:
  "analyzeForDrop ex_track (ex_analysis bs) 3 20000 now =
     Inr \<lparr>trackId = ''t1'', dropStart = \<lfloor>snapToDownbeat 30 bs * 1000\<rfloor>, confidence = squash (69 / 5),
          method_tag = ''sections'', previewLength = 20000, analysisTimestamp = now\<rparr>"
proof -
  have "sections (ex_analysis bs) = Some ex_sections_hit" "segments (ex_analysis bs) = Some ex_segments_jump"
    by (simp_all add: ex_analysis_def)
  from analyzeForDrop_unfold[OF this, of ex_track 3 20000 now] show ?thesis
    by (simp add: ex_window ex_threshold ex_hit_sections_eval buildResult_def ex_analysis_def
          ex_track_fields Let_def)
qed

lemma ex_not_served: "\<not> served_from_cache (ex_env response) ex_world ex_track 3 20000"
  by (simp add: served_from_cache_def getCachedAnalysis_def ex_world_def)

lemma ex_detect:
  "detectDrop (ex_env (Inr (ex_analysis bs))) ex_world ex_track 3 20000 =
     (Inr \<lparr>trackId = ''t1'', dropStart = \<lfloor>snapToDownbeat 30 bs * 1000\<rfloor>, confidence = squash (69 / 5),
           method_tag = ''sections'', previewLength = 20000, analysisTimestamp = 1001\<rparr>,
      \<lparr>store = [getCacheKey ''t1'' 3 20000 \<mapsto>
                 \<lparr>trackId = ''t1'', dropStart = \<lfloor>snapToDownbeat 30 bs * 1000\<rfloor>,
                  confidence = squash (69 / 5), method_tag = ''sections'', previewLength = 20000,
                  analysisTimestamp = 1001\<rparr>],
       api_calls = [''t1'']\<rparr>)"
  using detectDrop_miss[OF ex_not_served, of "Inr (ex_analysis bs)"]
  by (simp add: ex_env_def ex_analyze cacheAnalysis_def ex_world_def ex_track_fields)

lemma ex_detect_fail:
  "detectDrop (ex_env (Inl ProviderError)) ex_world ex_track 3 20000 =
     (Inr \<lparr>trackId = ''t1'', dropStart = 30000, confidence = 0.3,
           method_tag = ''error'', previewLength = 20000, analysisTimestamp = 1001\<rparr>,
      \<lparr>store = Map.empty, api_calls = [''t1'']\<rparr>)"
  using detectDrop_miss[OF ex_not_served, of "Inl ProviderError"]
  by (simp add: ex_env_def fallbackDrop_def ex_world_def ex_track_fields)

lemma ex_detect_empty:
  "detectDrop (ex_env (Inr ex_analysis_empty)) ex_world ex_track 3 20000 =
     (Inr (fallbackDrop ex_track 20000 0.2 method_30_percent 1001),
      \<lparr>store = [getCacheKey ''t1'' 3 20000 \<mapsto> fallbackDrop ex_track 20000 0.2 method_30_percent 1001],
       api_calls = [''t1'']\<rparr>)"
proof -
  have "analyzeForDrop ex_track ex_analysis_empty 3 20000 1001 =
      Inr (fallbackDrop ex_track 20000 0.2 method_30_percent 1001)"
    by (simp add: analyzeForDrop_def ex_analysis_empty_def Let_def median_def
          findDropInSections_def findDropInSegments_def loudestSegmentInRange_def
          findDropInSections_loop.simps findDropInSegments_loop.simps)
  with detectDrop_miss[OF ex_not_served, of "Inr ex_analysis_empty"] show ?thesis
    by (simp add: ex_env_def cacheAnalysis_def ex_world_def ex_track_fields)
qed

lemma ex_detect_write_fails:
  "detectDrop ((ex_env (Inr (ex_analysis [])))\<lparr>write_ok := False\<rparr>) ex_world ex_track 3 20000 =
     (Inr \<lparr>trackId = ''t1'', dropStart = 30000, confidence = squash (69 / 5),
           method_tag = ''sections'', previewLength = 20000, analysisTimestamp = 1001\<rparr>,
      \<lparr>store = Map.empty, api_calls = [''t1'']\<rparr>)"
proof -
  have ns: "\<not> served_from_cache ((ex_env (Inr (ex_analysis [])))\<lparr>write_ok := False\<rparr>) ex_world ex_track 3 20000"
    by (simp add: served_from_cache_def getCachedAnalysis_def ex_world_def)
  from detectDrop_miss[OF ns] show ?thesis
    by (simp add: ex_env_def ex_analyze cacheAnalysis_def ex_world_def ex_track_fields snapToDownbeat_def)
qed

lemma ex_cached_lookup:
  "store ex_world_cached (getCacheKey (track_id ex_track) 3 20000) = Some ex_cached"
  by (simp add: ex_world_cached_def ex_track_fields)

lemma ex_snap_far: "snapToDownbeat 30 [\<lparr>bar_start = 500, bar_confidence = 0.9\<rparr>] = 500"
  by (simp add: snapToDownbeat_def)


lemma ex_bars_within:
  "bars_within_track (ex_analysis [\<lparr>bar_start = 5, bar_confidence = 0.9\<rparr>]) ex_track"
  by (simp add: bars_within_track_def ex_analysis_def ex_track_fields)

text \<open>
  Claim C2. \<^verbatim>\<open>detectDrop\<close> never propagates an error: whatever the cache, the storage and
  the provider do (a failing call, or a response whose arrays are missing), the outcome is a
  result, never an error.
\<close>

theorem detectDrop_never_raises:
  "\<exists>r. fst (detectDrop env w track off len) = Inr r"
  by (cases "detectDrop_try env w track off len" rule: prod.exhaust;
      cases "fst (detectDrop_try env w track off len)")
     (auto simp: detectDrop_def)

text \<open>
  The body of the \<^verbatim>\<open>try\<close> block does fail, on a response whose \<^verbatim>\<open>sections\<close> are missing
  and on a failing provider; \<^verbatim>\<open>detectDrop\<close> returns a result in both cases.
\<close>

theorem detectDrop_never_raises_witness:
  "fst (detectDrop_try (ex_env (Inr ex_analysis_malformed)) ex_world ex_track 3 20000) = Inl TypeError \<and>
   fst (detectDrop_try (ex_env (Inl ProviderError)) ex_world ex_track 3 20000) = Inl ProviderError \<and>
   (\<exists>r. fst (detectDrop (ex_env (Inr ex_analysis_malformed)) ex_world ex_track 3 20000) = Inr r) \<and>
   (\<exists>r. fst (detectDrop (ex_env (Inl ProviderError)) ex_world ex_track 3 20000) = Inr r)"
proof -
  have "fst (detectDrop_try (ex_env (Inr ex_analysis_malformed)) ex_world ex_track 3 20000) = Inl TypeError"
    by (simp add: detectDrop_try_def getCachedAnalysis_def ex_world_def ex_env_def
          analyzeForDrop_def ex_analysis_malformed_def Let_def)
  moreover have "fst (detectDrop_try (ex_env (Inl ProviderError)) ex_world ex_track 3 20000) = Inl ProviderError"
    by (simp add: detectDrop_try_def getCachedAnalysis_def ex_world_def ex_env_def Let_def)
  ultimately show ?thesis
    using detectDrop_never_raises[of "ex_env (Inr ex_analysis_malformed)" ex_world ex_track 3 20000]
      detectDrop_never_raises[of "ex_env (Inl ProviderError)" ex_world ex_track 3 20000]
    by simp
qed

text \<open>
  Claim C1, as amended. For a track of non-negative duration, a call that is not served from
  the cache returns a result whose confidence lies in \<open>[0, 1]\<close>, on every path and for every
  analysis. Its \<^verbatim>\<open>dropStart\<close> lies in \<open>[0, duration_ms]\<close> provided that every bar of
  confidence at least 0.5 in the provider's answer starts within the track; without that
  proviso the beat snapper can carry the result beyond the track.
\<close>

theorem detectDrop_bounds:
  assumes "0 \<le> duration_ms track"
    and "\<not> served_from_cache env w track off len"
  shows "\<exists>r. fst (detectDrop env w track off len) = Inr r \<and>
           0 \<le> confidence r \<and> confidence r \<le> 1 \<and>
           ((case spotifyApiCall env (track_id track) of
               Inl err \<Rightarrow> True
             | Inr a \<Rightarrow> bars_within_track a track) \<longrightarrow>
            0 \<le> dropStart r \<and> dropStart r \<le> duration_ms track)"
proof -
  note miss = detectDrop_miss[OF assms(2)]
  let ?fb = "fallbackDrop track len 0.3 ''error'' (now_stamp env)"
  have fb: "0 \<le> confidence ?fb \<and> confidence ?fb \<le> 1 \<and>
            0 \<le> dropStart ?fb \<and> dropStart ?fb \<le> duration_ms track"
    using fallbackDrop_within[OF assms(1), of len "0.3" "''error''" "now_stamp env"]
    by (simp add: fallbackDrop_def)
  show ?thesis
  proof (cases "spotifyApiCall env (track_id track)")
    case (Inl err)
    with miss fb show ?thesis by simp
  next
    case (Inr a)
    show ?thesis
    proof (cases "analyzeForDrop track a off len (now_stamp env)")
      case (Inl err)
      with miss Inr fb show ?thesis by simp
    next
      case ok: (Inr d)
      from analyzeForDrop_bounds[OF assms(1) ok] miss Inr ok show ?thesis by simp
    qed
  qed
qed

text \<open>
  The example track with a confident bar at 5 s: both bounds hold.
\<close>

theorem detectDrop_bounds_witness:
  "0 \<le> duration_ms ex_track \<and>
   \<not> served_from_cache (ex_env (Inr (ex_analysis [\<lparr>bar_start = 5, bar_confidence = 0.9\<rparr>])))
        ex_world ex_track 3 20000 \<and>
   bars_within_track (ex_analysis [\<lparr>bar_start = 5, bar_confidence = 0.9\<rparr>]) ex_track \<and>
   (\<exists>r. fst (detectDrop (ex_env (Inr (ex_analysis [\<lparr>bar_start = 5, bar_confidence = 0.9\<rparr>])))
               ex_world ex_track 3 20000) = Inr r \<and>
        0 \<le> confidence r \<and> confidence r \<le> 1 \<and>
        0 \<le> dropStart r \<and> dropStart r \<le> duration_ms ex_track)"
proof -
  let ?env = "ex_env (Inr (ex_analysis [\<lparr>bar_start = 5, bar_confidence = 0.9\<rparr>]))"
  have d: "0 \<le> duration_ms ex_track" by (simp add: ex_track_fields)
  have api: "spotifyApiCall ?env (track_id ex_track) =
      Inr (ex_analysis [\<lparr>bar_start = 5, bar_confidence = 0.9\<rparr>])"
    by (simp add: ex_env_def)
  from detectDrop_bounds[OF d ex_not_served, of "Inr (ex_analysis [\<lparr>bar_start = 5, bar_confidence = 0.9\<rparr>])"]
    api ex_bars_within d ex_not_served
  show ?thesis by simp
qed

text \<open>
  The claim as stated fails: with a confident bar at 500 s in the analysis of the track of
  100 s, the section candidate at 30 s is snapped to 500 s and \<^verbatim>\<open>dropStart\<close> is 500000.
\<close>

theorem detectDrop_bounds_counterexample:
  "0 \<le> duration_ms ex_track \<and>
   \<not> served_from_cache (ex_env (Inr (ex_analysis [\<lparr>bar_start = 500, bar_confidence = 0.9\<rparr>])))
        ex_world ex_track 3 20000 \<and>
   (\<exists>r. fst (detectDrop (ex_env (Inr (ex_analysis [\<lparr>bar_start = 500, bar_confidence = 0.9\<rparr>])))
               ex_world ex_track 3 20000) = Inr r \<and>
        dropStart r = 500000 \<and> duration_ms ex_track < dropStart r)"
  using ex_not_served
  by (simp add: ex_detect ex_snap_far ex_track_fields)

text \<open>
  Claim C3, as amended. When the provider call fails (the call is made, that is, the result
  is not served from the cache), \<^verbatim>\<open>detectDrop\<close> returns \<^verbatim>\<open>dropStart\<close> equal to the floor of
  30 percent of the duration, confidence 0.3 and the method tag \<^verbatim>\<open>error\<close>.
\<close>

theorem detectDrop_error_fallback:
  assumes "\<not> served_from_cache env w track off len"
    and "spotifyApiCall env (track_id track) = Inl err"
  shows "\<exists>r. fst (detectDrop env w track off len) = Inr r \<and>
           dropStart r = \<lfloor>real_of_int (duration_ms track) * 0.3\<rfloor> \<and>
           confidence r = 0.3 \<and> method_tag r = ''error''"
  using detectDrop_miss[OF assms(1)] assms(2) by (simp add: fallbackDrop_def)

text \<open>
  The example track with a failing provider.
\<close>

theorem detectDrop_error_fallback_witness:
  "\<not> served_from_cache (ex_env (Inl ProviderError)) ex_world ex_track 3 20000 \<and>
   spotifyApiCall (ex_env (Inl ProviderError)) (track_id ex_track) = Inl ProviderError \<and>
   (\<exists>r. fst (detectDrop (ex_env (Inl ProviderError)) ex_world ex_track 3 20000) = Inr r \<and>
        dropStart r = 30000 \<and> confidence r = 0.3 \<and> method_tag r = ''error'')"
proof -
  have api: "spotifyApiCall (ex_env (Inl ProviderError)) (track_id ex_track) = Inl ProviderError"
    by (simp add: ex_env_def)
  from detectDrop_error_fallback[OF ex_not_served api] api ex_not_served
  show ?thesis by (simp add: ex_track_fields)
qed

text \<open>
  The claim as stated fails: for the track of 100 s the error fallback starts at 30000 ms,
  not at 20000 ms, and its method tag is \<^verbatim>\<open>error\<close>, not \<^verbatim>\<open>error-fallback\<close>.
\<close>

theorem detectDrop_error_fallback_counterexample:
  "spotifyApiCall (ex_env (Inl ProviderError)) (track_id ex_track) = Inl ProviderError \<and>
   \<lfloor>real_of_int (duration_ms ex_track) * 0.2\<rfloor> = 20000 \<and>
   (\<exists>r. fst (detectDrop (ex_env (Inl ProviderError)) ex_world ex_track 3 20000) = Inr r \<and>
        dropStart r = 30000 \<and>
        dropStart r \<noteq> \<lfloor>real_of_int (duration_ms ex_track) * 0.2\<rfloor> \<and>
        method_tag r \<noteq> ''error-fallback'')"
proof -
  have "spotifyApiCall (ex_env (Inl ProviderError)) (track_id ex_track) = Inl ProviderError"
    by (simp add: ex_env_def)
  then show ?thesis by (simp add: ex_detect_fail ex_track_fields)
qed

text \<open>
  Claim C4, as amended. A run that is not served from the cache and does not end in the error
  fallback (a scanner hit, the loudest segment or the hard fallback) leaves its result in the
  cache under the derived key, when the storage write succeeds. A run that ends in the error
  fallback returns its result without writing it, and a failed write is ignored: in both
  cases the cache is as before.
\<close>

theorem detectDrop_cache_write:
  assumes "\<not> served_from_cache env w track off len"
  shows "\<exists>r. fst (detectDrop env w track off len) = Inr r \<and>
           (if method_tag r \<noteq> ''error'' \<and> write_ok env
            then store (snd (detectDrop env w track off len))
                   (getCacheKey (track_id track) off len) = Some r
            else store (snd (detectDrop env w track off len)) = store w)"
proof -
  note miss = detectDrop_miss[OF assms]
  show ?thesis
  proof (cases "spotifyApiCall env (track_id track)")
    case (Inl err)
    with miss show ?thesis by (simp add: fallbackDrop_def)
  next
    case (Inr a)
    show ?thesis
    proof (cases "analyzeForDrop track a off len (now_stamp env)")
      case (Inl err)
      with miss Inr show ?thesis by (simp add: fallbackDrop_def)
    next
      case ok: (Inr d)
      from analyzeForDrop_method[OF ok] miss Inr ok show ?thesis
        by (simp add: cacheAnalysis_def)
    qed
  qed
qed

text \<open>
  On an analysis with no item the hard fallback is written to the cache; with a failing
  provider the cache is left as it was.
\<close>

theorem detectDrop_cache_write_witness:
  "\<not> served_from_cache (ex_env (Inr ex_analysis_empty)) ex_world ex_track 3 20000 \<and>
   write_ok (ex_env (Inr ex_analysis_empty)) \<and>
   (\<exists>r. fst (detectDrop (ex_env (Inr ex_analysis_empty)) ex_world ex_track 3 20000) = Inr r \<and>
        method_tag r = method_30_percent \<and>
        store (snd (detectDrop (ex_env (Inr ex_analysis_empty)) ex_world ex_track 3 20000))
          (getCacheKey (track_id ex_track) 3 20000) = Some r) \<and>
   \<not> served_from_cache (ex_env (Inl ProviderError)) ex_world ex_track 3 20000 \<and>
   write_ok (ex_env (Inl ProviderError)) \<and>
   (\<exists>r. fst (detectDrop (ex_env (Inl ProviderError)) ex_world ex_track 3 20000) = Inr r \<and>
        method_tag r = ''error'' \<and>
        store (snd (detectDrop (ex_env (Inl ProviderError)) ex_world ex_track 3 20000)) = store ex_world)"
proof -
  have w: "write_ok (ex_env (Inr ex_analysis_empty))" "write_ok (ex_env (Inl ProviderError))"
    by (simp_all add: ex_env_def)
  have m: "method_tag (fallbackDrop ex_track 20000 0.2 method_30_percent 1001) = method_30_percent"
    by (simp add: fallbackDrop_def)
  from detectDrop_cache_write[OF ex_not_served, of "Inr ex_analysis_empty"] m w
  have a: "\<exists>r. fst (detectDrop (ex_env (Inr ex_analysis_empty)) ex_world ex_track 3 20000) = Inr r \<and>
        method_tag r = method_30_percent \<and>
        store (snd (detectDrop (ex_env (Inr ex_analysis_empty)) ex_world ex_track 3 20000))
          (getCacheKey (track_id ex_track) 3 20000) = Some r"
    by (simp add: ex_detect_empty method_tags_distinct)
  from detectDrop_cache_write[OF ex_not_served, of "Inl ProviderError"]
  have b: "\<exists>r. fst (detectDrop (ex_env (Inl ProviderError)) ex_world ex_track 3 20000) = Inr r \<and>
        method_tag r = ''error'' \<and>
        store (snd (detectDrop (ex_env (Inl ProviderError)) ex_world ex_track 3 20000)) = store ex_world"
    by (simp add: ex_detect_fail)
  from a b w ex_not_served show ?thesis by simp
qed

text \<open>
  The claim as stated fails: after the error fallback the cache holds nothing under the
  key; and when the storage write fails the result of the section scanner is returned but
  not stored.
\<close>

theorem detectDrop_cache_write_counterexample:
  "\<not> served_from_cache (ex_env (Inl ProviderError)) ex_world ex_track 3 20000 \<and>
   (\<exists>r. fst (detectDrop (ex_env (Inl ProviderError)) ex_world ex_track 3 20000) = Inr r) \<and>
   store (snd (detectDrop (ex_env (Inl ProviderError)) ex_world ex_track 3 20000))
     (getCacheKey (track_id ex_track) 3 20000) = None \<and>
   \<not> served_from_cache ((ex_env (Inr (ex_analysis [])))\<lparr>write_ok := False\<rparr>) ex_world ex_track 3 20000 \<and>
   (\<exists>r. fst (detectDrop ((ex_env (Inr (ex_analysis [])))\<lparr>write_ok := False\<rparr>) ex_world ex_track 3 20000) = Inr r \<and>
        method_tag r = ''sections'') \<and>
   store (snd (detectDrop ((ex_env (Inr (ex_analysis [])))\<lparr>write_ok := False\<rparr>) ex_world ex_track 3 20000))
     (getCacheKey (track_id ex_track) 3 20000) = None"
proof -
  have "\<not> served_from_cache ((ex_env (Inr (ex_analysis [])))\<lparr>write_ok := False\<rparr>) ex_world ex_track 3 20000"
    by (simp add: served_from_cache_def getCachedAnalysis_def ex_world_def)
  with ex_not_served[of "Inl ProviderError"] show ?thesis
    by (simp add: ex_detect_fail ex_detect_write_fails)
qed

text \<open>
  Claim C6, as amended. When the cache holds an entry under the key of (track id, loudness
  offset, preview length), \<^verbatim>\<open>detectDrop\<close> returns exactly that entry, with no call of the
  provider and no change of the cache, if the cache read succeeds and the entry's age is
  strictly less than 7 days; at an age of 7 days or more, or when the read fails, the entry
  is treated as absent and the provider is called.
\<close>

theorem detectDrop_cache_hit:
  assumes "store w (getCacheKey (track_id track) off len) = Some c"
  shows "if read_ok env \<and> now_check env - analysisTimestamp c < seven_days
         then detectDrop env w track off len = (Inr c, w)
         else api_calls (snd (detectDrop env w track off len)) = track_id track # api_calls w"
proof (cases "read_ok env \<and> now_check env - analysisTimestamp c < seven_days")
  case True
  with assms have "getCachedAnalysis env w (track_id track) off len = Some c"
    by (simp add: getCachedAnalysis_def)
  from detectDrop_hit[OF this] True show ?thesis by simp
next
  case False
  with assms have "\<not> served_from_cache env w track off len"
    by (auto simp: served_from_cache_def getCachedAnalysis_def)
  from detectDrop_miss[OF this]
  have "api_calls (snd (detectDrop env w track off len)) = track_id track # api_calls w"
    by (simp add: cacheAnalysis_def split: sum.splits)
  with False show ?thesis by (simp only: if_not_P if_False simp_thms)
qed

text \<open>
  An entry computed at time 0 is returned at time 1000 and is stale at time 700000000.
\<close>

theorem detectDrop_cache_hit_witness:
  "read_ok (ex_env (Inl ProviderError)) \<and>
   store ex_world_cached (getCacheKey (track_id ex_track) 3 20000) = Some ex_cached \<and>
   now_check (ex_env (Inl ProviderError)) - analysisTimestamp ex_cached < seven_days \<and>
   detectDrop (ex_env (Inl ProviderError)) ex_world_cached ex_track 3 20000 = (Inr ex_cached, ex_world_cached) \<and>
   \<not> now_check ((ex_env (Inl ProviderError))\<lparr>now_check := 700000000\<rparr>) - analysisTimestamp ex_cached < seven_days \<and>
   api_calls (snd (detectDrop ((ex_env (Inl ProviderError))\<lparr>now_check := 700000000\<rparr>)
                      ex_world_cached ex_track 3 20000)) = [''t1'']"
proof -
  have r: "read_ok (ex_env (Inl ProviderError))"
    "read_ok ((ex_env (Inl ProviderError))\<lparr>now_check := 700000000\<rparr>)"
    by (simp_all add: ex_env_def)
  have fresh: "now_check (ex_env (Inl ProviderError)) - analysisTimestamp ex_cached < seven_days"
    by (simp add: ex_env_def ex_cached_def seven_days_def)
  have stale: "\<not> now_check ((ex_env (Inl ProviderError))\<lparr>now_check := 700000000\<rparr>)
      - analysisTimestamp ex_cached < seven_days"
    by (simp add: ex_env_def ex_cached_def seven_days_def)
  have calls: "api_calls ex_world_cached = []" by (simp add: ex_world_cached_def)
  from detectDrop_cache_hit[OF ex_cached_lookup, of "ex_env (Inl ProviderError)"] fresh r(1)
  have a: "detectDrop (ex_env (Inl ProviderError)) ex_world_cached ex_track 3 20000 =
      (Inr ex_cached, ex_world_cached)" by simp
  from detectDrop_cache_hit[OF ex_cached_lookup,
      of "(ex_env (Inl ProviderError))\<lparr>now_check := 700000000\<rparr>"] stale calls
  have b: "api_calls (snd (detectDrop ((ex_env (Inl ProviderError))\<lparr>now_check := 700000000\<rparr>)
                      ex_world_cached ex_track 3 20000)) = [''t1'']"
    by (simp add: ex_track_fields)
  from a b r(1) fresh stale ex_cached_lookup show ?thesis by simp
qed

text \<open>
  The claim as stated fails: at an age of exactly 7 days (which does not exceed 7 days) the
  entry is not returned and the provider is called; and when the cache read fails a fresh
  entry is not returned either.
\<close>

theorem detectDrop_cache_hit_counterexample:
  "read_ok ((ex_env (Inl ProviderError))\<lparr>now_check := seven_days\<rparr>) \<and>
   store ex_world_cached (getCacheKey (track_id ex_track) 3 20000) = Some ex_cached \<and>
   now_check ((ex_env (Inl ProviderError))\<lparr>now_check := seven_days\<rparr>) - analysisTimestamp ex_cached = seven_days \<and>
   fst (detectDrop ((ex_env (Inl ProviderError))\<lparr>now_check := seven_days\<rparr>) ex_world_cached ex_track 3 20000)
     \<noteq> Inr ex_cached \<and>
   api_calls (snd (detectDrop ((ex_env (Inl ProviderError))\<lparr>now_check := seven_days\<rparr>)
                      ex_world_cached ex_track 3 20000)) = [''t1''] \<and>
   now_check ((ex_env (Inl ProviderError))\<lparr>read_ok := False\<rparr>) - analysisTimestamp ex_cached < seven_days \<and>
   fst (detectDrop ((ex_env (Inl ProviderError))\<lparr>read_ok := False\<rparr>) ex_world_cached ex_track 3 20000)
     \<noteq> Inr ex_cached \<and>
   api_calls (snd (detectDrop ((ex_env (Inl ProviderError))\<lparr>read_ok := False\<rparr>)
                      ex_world_cached ex_track 3 20000)) = [''t1'']"
proof -
  let ?e1 = "(ex_env (Inl ProviderError))\<lparr>now_check := seven_days\<rparr>"
  let ?e2 = "(ex_env (Inl ProviderError))\<lparr>read_ok := False\<rparr>"
  have ns1: "\<not> served_from_cache ?e1 ex_world_cached ex_track 3 20000"
    by (simp add: served_from_cache_def getCachedAnalysis_def ex_cached_lookup ex_env_def ex_cached_def)
  have ns2: "\<not> served_from_cache ?e2 ex_world_cached ex_track 3 20000"
    by (simp add: served_from_cache_def getCachedAnalysis_def ex_env_def)
  have d1: "detectDrop ?e1 ex_world_cached ex_track 3 20000 =
      (Inr (fallbackDrop ex_track 20000 0.3 ''error'' 1001),
       ex_world_cached\<lparr>api_calls := [''t1'']\<rparr>)"
    using detectDrop_miss[OF ns1] by (simp add: ex_env_def ex_world_cached_def ex_track_fields)
  have d2: "detectDrop ?e2 ex_world_cached ex_track 3 20000 =
      (Inr (fallbackDrop ex_track 20000 0.3 ''error'' 1001),
       ex_world_cached\<lparr>api_calls := [''t1'']\<rparr>)"
    using detectDrop_miss[OF ns2] by (simp add: ex_env_def ex_world_cached_def ex_track_fields)
  have ne: "fallbackDrop ex_track 20000 0.3 ''error'' 1001 \<noteq> ex_cached"
    by (simp add: fallbackDrop_def ex_cached_def)
  have misc: "read_ok ?e1" "now_check ?e1 - analysisTimestamp ex_cached = seven_days"
    "now_check ?e2 - analysisTimestamp ex_cached < seven_days"
    by (simp_all add: ex_env_def ex_cached_def seven_days_def)
  from d1 d2 ne misc ex_cached_lookup show ?thesis by simp
qed

section \<open>The fallback chain\<close>

text \<open>
  Claim C5. On an analysis whose three arrays are present, \<^verbatim>\<open>analyzeForDrop\<close> uses the
  candidate of the section scanner whenever there is one, whatever the segment scanner would
  return; the candidate of the segment scanner only when the section scanner has none; the
  loudest segment of the window, with confidence 0.6, only when both scanners have none;
  and the fallback at 30 percent of the duration, with confidence 0.2, only when moreover no
  segment starts in the window.
\<close>

theorem analyzeForDrop_priority:
  assumes "sections analysis = Some secs" "segments analysis = Some segs" "bars analysis = Some bs"
  shows "\<exists>r. analyzeForDrop track analysis off len now = Inr r \<and>
     (case findDropInSections secs (searchStartMs track) (searchEndMs track) (dynThreshold segs off) of
        Some c \<Rightarrow>
          method_tag r = ''sections'' \<and> confidence r = squash (cand_score c) \<and>
          dropStart r = \<lfloor>snapToDownbeat (cand_start c) bs * 1000\<rfloor>
      | None \<Rightarrow>
          (case findDropInSegments segs (searchStartMs track) (searchEndMs track) (dynThreshold segs off) of
             Some c \<Rightarrow>
               method_tag r = ''segments'' \<and> confidence r = squash (cand_score c) \<and>
               dropStart r = \<lfloor>snapToDownbeat (cand_start c) bs * 1000\<rfloor>
           | None \<Rightarrow>
               if \<exists>g\<in>set segs. segment_in_window g (searchStartMs track) (searchEndMs track)
               then method_tag r = method_loudest_segment \<and> confidence r = 0.6 \<and>
                    (\<exists>g\<in>set segs.
                        segment_in_window g (searchStartMs track) (searchEndMs track) \<and>
                        (\<forall>g'\<in>set segs. segment_in_window g' (searchStartMs track) (searchEndMs track)
                            \<longrightarrow> seg_loudness_max g' \<le> seg_loudness_max g) \<and>
                        dropStart r = \<lfloor>snapToDownbeat (seg_start g) bs * 1000\<rfloor>)
               else method_tag r = method_30_percent \<and> confidence r = 0.2 \<and>
                    dropStart r = \<lfloor>real_of_int (duration_ms track) * 0.3\<rfloor>))"
proof -
  note unf = analyzeForDrop_unfold[OF assms(1,2), of track off len now]
  let ?s = "searchStartMs track" and ?e = "searchEndMs track" and ?th = "dynThreshold segs off"
  show ?thesis
  proof (cases "findDropInSections secs ?s ?e ?th")
    case (Some c)
    with unf assms(3) show ?thesis by (simp add: buildResult_def Let_def)
  next
    case nsec: None
    show ?thesis
    proof (cases "findDropInSegments segs ?s ?e ?th")
      case (Some c)
      with unf nsec assms(3) show ?thesis by (simp add: buildResult_def Let_def)
    next
      case nseg: None
      show ?thesis
      proof (cases "loudestSegmentInRange segs ?s ?e")
        case (Some c)
        with loudestSegmentInRange_spec[of segs ?s ?e]
        obtain g where g: "g \<in> set segs" "segment_in_window g ?s ?e"
          "c = \<lparr>cand_start = seg_start g, cand_score = 0.6\<rparr>"
          "\<forall>g'\<in>set segs. segment_in_window g' ?s ?e \<longrightarrow> seg_loudness_max g' \<le> seg_loudness_max g"
          by auto
        then have ex: "\<exists>g\<in>set segs. segment_in_window g ?s ?e" by blast
        have "\<exists>g\<in>set segs. segment_in_window g ?s ?e \<and>
                (\<forall>g'\<in>set segs. segment_in_window g' ?s ?e \<longrightarrow> seg_loudness_max g' \<le> seg_loudness_max g) \<and>
                \<lfloor>snapToDownbeat (cand_start c) bs * 1000\<rfloor> = \<lfloor>snapToDownbeat (seg_start g) bs * 1000\<rfloor>"
          using g by (intro bexI[of _ g]) simp_all
        with unf nsec nseg Some assms(3) ex show ?thesis
          by (simp add: buildResult_def Let_def)
      next
        case None
        with loudestSegmentInRange_spec[of segs ?s ?e]
        have "\<not> (\<exists>g\<in>set segs. segment_in_window g ?s ?e)" by simp
        with unf nsec nseg None show ?thesis by (simp add: fallbackDrop_def)
      qed
    qed
  qed
qed

text \<open>
  In the example analysis the segment scanner scores its candidate higher (280/3) than the
  section scanner does (69/5); the result is that of the section scanner.
\<close>

theorem analyzeForDrop_priority_witness:
  "findDropInSections ex_sections_hit (searchStartMs ex_track) (searchEndMs ex_track)
      (dynThreshold ex_segments_jump 3) = Some \<lparr>cand_start = 30, cand_score = 69 / 5\<rparr> \<and>
   findDropInSegments ex_segments_jump (searchStartMs ex_track) (searchEndMs ex_track)
      (dynThreshold ex_segments_jump 3) = Some \<lparr>cand_start = 30, cand_score = 280 / 3\<rparr> \<and>
   (\<exists>r. analyzeForDrop ex_track (ex_analysis []) 3 20000 0 = Inr r \<and>
        method_tag r = ''sections'' \<and> confidence r = squash (69 / 5) \<and> dropStart r = 30000)"
proof -
  have arrays: "sections (ex_analysis []) = Some ex_sections_hit"
    "segments (ex_analysis []) = Some ex_segments_jump" "bars (ex_analysis []) = Some []"
    by (simp_all add: ex_analysis_def)
  have sec: "findDropInSections ex_sections_hit (searchStartMs ex_track) (searchEndMs ex_track)
      (dynThreshold ex_segments_jump 3) = Some \<lparr>cand_start = 30, cand_score = 69 / 5\<rparr>"
    by (simp add: ex_window ex_threshold ex_hit_sections_eval)
  have seg: "findDropInSegments ex_segments_jump (searchStartMs ex_track) (searchEndMs ex_track)
      (dynThreshold ex_segments_jump 3) = Some \<lparr>cand_start = 30, cand_score = 280 / 3\<rparr>"
    by (simp add: ex_window ex_threshold ex_hit_segments_eval)
  from analyzeForDrop_priority[OF arrays, of ex_track 3 20000 0] sec
  have "\<exists>r. analyzeForDrop ex_track (ex_analysis []) 3 20000 0 = Inr r \<and>
        method_tag r = ''sections'' \<and> confidence r = squash (69 / 5) \<and> dropStart r = 30000"
    by (simp add: snapToDownbeat_def)
  with sec seg show ?thesis by simp
qed

section \<open>Beat snapping and the search window\<close>


end
